theory Spec2Isabelle
  imports Main
begin

section \<open>Python values shared by both source files\<close>

text \<open>
  Exceptions are values. \<open>ZeroDivisionError\<close> stands for an instance of that class (or of a
  subclass, which \<^verbatim>\<open>except ZeroDivisionError\<close> catches alike); \<open>SystemExit n\<close> is what
  \<^verbatim>\<open>sys.exit(n)\<close> raises, and ends the process with status \<open>n\<close> when nothing catches it;
  \<open>OtherError\<close> carries the class name of an exception of any other class.
\<close>

datatype exn =
    ZeroDivisionError | ValueError | IndexError | KeyError | SystemExit int | OtherError string

section \<open>HMM\_analysis\_python/hmm\_worker.py\<close>

text \<open>
  What \<^verbatim>\<open>fit_hmm\<close> does that its caller can observe: a call of \<^verbatim>\<open>job.requeue()\<close>, with the
  boolean it returned, and a line printed to standard output.
\<close>

datatype event = RequeueCall bool | Print string

text \<open>
  A job object has the attribute \<^verbatim>\<open>params\<close> and the method \<^verbatim>\<open>requeue()\<close>. The method acts on
  the job queue, a state of type \<open>'q\<close>, and returns a boolean.
\<close>

record ('p, 'q) job =
  params :: 'p
  requeue :: "'q \<Rightarrow> bool \<times> 'q"

text \<open>
  \<^verbatim>\<open>
  def fit_hmm(job):
      try:
          get_fitted_hmm(**job.params, verbose=True)
      except ZeroDivisionError:
          if job.requeue():
              print("Optimization failed, retrying.")
          else:
              print("Optimization failed.")
  \<close>
  \<^verbatim>\<open>get_fitted_hmm\<close> is imported from \<^verbatim>\<open>hmmsupport\<close>; it is a parameter here, called with the
  job's parameters and \<^verbatim>\<open>verbose=True\<close>, and either returns or raises. The result of
  \<open>fit_hmm\<close> is the list of its events in order, its outcome (\<open>Inr ()\<close> for a normal return,
  \<open>Inl e\<close> for an exception that leaves the function) and the queue afterwards.
\<close>

definition fit_hmm ::
  "('p \<Rightarrow> bool \<Rightarrow> exn + unit) \<Rightarrow> ('p, 'q) job \<Rightarrow> 'q \<Rightarrow> event list \<times> (exn + unit) \<times> 'q" where
  "fit_hmm get_fitted_hmm j q =
     (case get_fitted_hmm (params j) True of
        Inr u \<Rightarrow> ([], Inr (), q)
      | Inl ZeroDivisionError \<Rightarrow>
          (case requeue j q of
             (True, q') \<Rightarrow>
               ([RequeueCall True, Print ''Optimization failed, retrying.''], Inr (), q')
           | (False, q') \<Rightarrow>
               ([RequeueCall False, Print ''Optimization failed.''], Inr (), q'))
      | Inl e \<Rightarrow> ([], Inl e, q))"

definition requeue_calls :: "event list \<Rightarrow> nat" where
  "requeue_calls evs =
     length (filter (\<lambda>e. case e of RequeueCall b \<Rightarrow> True | Print s \<Rightarrow> False) evs)"

definition requeue_results :: "event list \<Rightarrow> bool list" where
  "requeue_results evs =
     concat (map (\<lambda>e. case e of RequeueCall b \<Rightarrow> [b] | Print s \<Rightarrow> []) evs)"

text \<open>
  The events are what \<open>fit_hmm\<close> reports. To count the calls that reach \<^verbatim>\<open>job.requeue()\<close>
  itself, the method is wrapped: every application of it adds one to a counter kept beside
  the queue.
\<close>

definition counting :: "('p, 'q) job \<Rightarrow> ('p, nat \<times> 'q) job" where
  "counting j =
     \<lparr>params = params j,
      requeue = (\<lambda>(n, q). case requeue j q of (b, q') \<Rightarrow> (b, (Suc n, q')))\<rparr>"

definition printed :: "event list \<Rightarrow> string list" where
  "printed evs = concat (map (\<lambda>e. case e of Print s \<Rightarrow> [s] | RequeueCall b \<Rightarrow> []) evs)"

text \<open>
  A fit and a job to run \<open>fit_hmm\<close> on: the fit fails numerically for the parameters 0,
  raises another exception for 1 and succeeds otherwise; the queue is a number that every
  requeue increases, and a requeue is accepted while it is below three.
\<close>

definition example_get_fitted_hmm :: "nat \<Rightarrow> bool \<Rightarrow> exn + unit" where
  "example_get_fitted_hmm p v =
     (if p = 0 then Inl ZeroDivisionError
      else if p = 1 then Inl (OtherError ''MemoryError'')
      else Inr ())"

definition example_job :: "nat \<Rightarrow> (nat, nat) job" where
  "example_job p = \<lparr>params = p, requeue = (\<lambda>q. (q < 3, Suc q))\<rparr>"

subsection \<open>The job queue and the worker loop\<close>

text \<open>
  Modelled from the spec: the job queue behind \<^verbatim>\<open>job.requeue()\<close> and the loop
  \<^verbatim>\<open>hmmsupport.become_worker\<close>, neither of which is among the sources. What follows is
  sections 3, 4.3 and 4.4 of the spec. A job is Pending, Leased, or in one of the final
  states Succeeded and Abandoned; a job id is the job's position in the queue, and a job
  that the spec removes from the queue keeps its position, in a final state.
\<close>

datatype job_status = Pending | Leased | Succeeded | Abandoned

record 'k queued_job =
  job_key :: 'k
  job_verbose :: bool
  attempts :: nat
  status :: job_status

record 'k job_queue =
  jobs :: "'k queued_job list"
  max_attempts :: nat

text \<open>
  Modelled from the spec: \<open>enqueue\<close> of the job queue (4.3), which "adds a Pending job"; a
  new job's counter of attempts starts at zero.
\<close>

definition enqueue :: "'k job_queue \<Rightarrow> 'k \<Rightarrow> bool \<Rightarrow> nat \<times> 'k job_queue" where
  "enqueue q k v =
     (length (jobs q),
      q\<lparr>jobs := jobs q @ [\<lparr>job_key = k, job_verbose = v, attempts = 0, status = Pending\<rparr>]\<rparr>)"

text \<open>
  Modelled from the spec: \<open>lease\<close> of the job queue (4.3), which "moves one Pending job to
  Leased and returns it", or returns nothing when no job is Pending. No order is promised;
  the first Pending job is taken here.
\<close>

fun first_pending :: "'k queued_job list \<Rightarrow> nat option" where
  "first_pending [] = None"
| "first_pending (j # js) =
     (if status j = Pending then Some 0 else map_option Suc (first_pending js))"

definition lease :: "'k job_queue \<Rightarrow> (nat \<times> 'k job_queue) option" where
  "lease q =
     (case first_pending (jobs q) of
        None \<Rightarrow> None
      | Some i \<Rightarrow> Some (i, q\<lparr>jobs := (jobs q)[i := (jobs q ! i)\<lparr>status := Leased\<rparr>]\<rparr>))"

text \<open>
  Modelled from the spec: \<open>complete\<close> of the job queue (4.3), called after a fit that
  succeeded, and the end of a job whose failure is "non-retryable" (4.4, 7): \<open>abandon\<close> puts
  it in the final state in which it is never retried.
\<close>

definition complete :: "'k job_queue \<Rightarrow> nat \<Rightarrow> 'k job_queue" where
  "complete q i = q\<lparr>jobs := (jobs q)[i := (jobs q ! i)\<lparr>status := Succeeded\<rparr>]\<rparr>"

definition abandon :: "'k job_queue \<Rightarrow> nat \<Rightarrow> 'k job_queue" where
  "abandon q i = q\<lparr>jobs := (jobs q)[i := (jobs q ! i)\<lparr>status := Abandoned\<rparr>]\<rparr>"

text \<open>
  Modelled from the spec: \<open>requeue\<close> of the job queue (4.3), the method behind
  \<^verbatim>\<open>job.requeue()\<close>. It "increments attempts; if attempts is still below the maximum,
  returns the job to Pending and reports accepted; otherwise moves it to Abandoned and
  reports rejected". The boolean is \<open>True\<close> for accepted.
\<close>

definition requeue_job :: "nat \<Rightarrow> 'k job_queue \<Rightarrow> bool \<times> 'k job_queue" where
  "requeue_job i q =
     (let j = jobs q ! i; a = Suc (attempts j)
      in if a < max_attempts q
         then (True, q\<lparr>jobs := (jobs q)[i := j\<lparr>attempts := a, status := Pending\<rparr>]\<rparr>)
         else (False, q\<lparr>jobs := (jobs q)[i := j\<lparr>attempts := a, status := Abandoned\<rparr>]\<rparr>))"

text \<open>
  What the worker does, in order: it leases a job, the handler makes its calls and prints
  its lines for that job, and the worker completes a job or logs the unexpected failure of
  one.
\<close>

datatype worker_event =
    LeaseEv nat
  | HandlerEv nat event
  | CompleteEv nat
  | UnexpectedFailure nat exn

text \<open>
  Modelled from the spec: one iteration of \<^verbatim>\<open>hmmsupport.become_worker\<close>, the Worker of 4.4.
  It leases a job and hands it to the handler, which is \<open>fit_hmm\<close> in
  \<^verbatim>\<open>become_worker("hmm", fit_hmm)\<close>. The fit of a key may end differently from one attempt
  to the next: \<open>fit k n\<close> is its outcome for a job that has been requeued \<open>n\<close> times. An
  exception that leaves the handler is "logged as fatal for that job" and ends that job
  alone (failures "never abort the worker process"); a handler that returns with the job
  still Leased has fitted it, and the job is completed.
\<close>

type_synonym 'k handler =
  "('k \<Rightarrow> bool \<Rightarrow> exn + unit) \<Rightarrow> ('k, 'k job_queue) job \<Rightarrow> 'k job_queue
     \<Rightarrow> event list \<times> (exn + unit) \<times> 'k job_queue"

definition worker_iteration ::
  "'k handler \<Rightarrow> ('k \<Rightarrow> nat \<Rightarrow> exn + unit) \<Rightarrow> 'k job_queue
     \<Rightarrow> (worker_event list \<times> 'k job_queue) option" where
  "worker_iteration how fit q =
     (case lease q of
        None \<Rightarrow> None
      | Some (i, q1) \<Rightarrow>
          (case how (\<lambda>p v. fit p (attempts (jobs q1 ! i)))
                    \<lparr>params = job_key (jobs q1 ! i), requeue = requeue_job i\<rparr> q1 of
             (evs, Inl e, q2) \<Rightarrow>
               Some (LeaseEv i # map (HandlerEv i) evs @ [UnexpectedFailure i e], abandon q2 i)
           | (evs, Inr u, q2) \<Rightarrow>
               if status (jobs q2 ! i) = Leased
               then Some (LeaseEv i # map (HandlerEv i) evs @ [CompleteEv i], complete q2 i)
               else Some (LeaseEv i # map (HandlerEv i) evs, q2)))"

text \<open>
  Modelled from the spec: the loop of \<^verbatim>\<open>hmmsupport.become_worker\<close>, run for at most \<open>n\<close>
  iterations. It stops when the queue has no Pending job.
\<close>

fun become_worker ::
  "nat \<Rightarrow> 'k handler \<Rightarrow> ('k \<Rightarrow> nat \<Rightarrow> exn + unit) \<Rightarrow> 'k job_queue
     \<Rightarrow> worker_event list \<times> 'k job_queue" where
  "become_worker 0 how fit q = ([], q)"
| "become_worker (Suc n) how fit q =
     (case worker_iteration how fit q of
        None \<Rightarrow> ([], q)
      | Some (evs, q') \<Rightarrow>
          (case become_worker n how fit q' of (evs', q'') \<Rightarrow> (evs @ evs', q'')))"

subsection \<open>The worker loop with \<open>fit_hmm\<close> as its handler\<close>

text \<open>
  One iteration of \<^verbatim>\<open>become_worker("hmm", fit_hmm)\<close> on the job \<open>i\<close> it leases, written out
  case by case; \<open>worker_iteration_fit_hmm\<close> below proves that this is what
  \<open>worker_iteration fit_hmm\<close> does.
\<close>

definition iteration_of ::
  "('k \<Rightarrow> nat \<Rightarrow> exn + unit) \<Rightarrow> 'k job_queue \<Rightarrow> nat \<Rightarrow> worker_event list \<times> 'k job_queue" where
  "iteration_of fit q i =
     (let j = jobs q ! i in
      case fit (job_key j) (attempts j) of
        Inr u \<Rightarrow> ([LeaseEv i, CompleteEv i], q\<lparr>jobs := (jobs q)[i := j\<lparr>status := Succeeded\<rparr>]\<rparr>)
      | Inl e \<Rightarrow>
          if e = ZeroDivisionError then
            if Suc (attempts j) < max_attempts q then
              ([LeaseEv i, HandlerEv i (RequeueCall True),
                HandlerEv i (Print ''Optimization failed, retrying.'')],
               q\<lparr>jobs := (jobs q)[i := j\<lparr>attempts := Suc (attempts j), status := Pending\<rparr>]\<rparr>)
            else
              ([LeaseEv i, HandlerEv i (RequeueCall False),
                HandlerEv i (Print ''Optimization failed.'')],
               q\<lparr>jobs := (jobs q)[i := j\<lparr>attempts := Suc (attempts j), status := Abandoned\<rparr>]\<rparr>)
          else ([LeaseEv i, UnexpectedFailure i e],
                q\<lparr>jobs := (jobs q)[i := j\<lparr>status := Abandoned\<rparr>]\<rparr>))"

text \<open>
  The measure that every iteration decreases: for each Pending job, one more than the
  attempts it has left.
\<close>

definition weight :: "'k job_queue \<Rightarrow> nat" where
  "weight q =
     sum_list (map (\<lambda>j. if status j = Pending then Suc (max_attempts q - attempts j) else 0)
                 (jobs q))"

text \<open>
  What holds of a job \<open>i\<close> with key \<open>K\<close> whose fit always fails numerically, after any
  number of iterations that produced the events \<open>T\<close>, under the maximum \<open>M\<close>: each lease so
  far was followed by a requeue, and the job is Pending below the maximum or Abandoned at
  the maximum, the last requeue having been rejected.
\<close>

definition retry_inv ::
  "'k \<Rightarrow> nat \<Rightarrow> nat \<Rightarrow> worker_event list \<Rightarrow> 'k job_queue \<Rightarrow> bool" where
  "retry_inv K M i T q =
     (i < length (jobs q) \<and> max_attempts q = M \<and> job_key (jobs q ! i) = K
      \<and> count_list T (LeaseEv i) = attempts (jobs q ! i)
      \<and> (status (jobs q ! i) = Pending \<and> attempts (jobs q ! i) < M
           \<and> count_list T (HandlerEv i (RequeueCall True)) = attempts (jobs q ! i)
           \<and> count_list T (HandlerEv i (RequeueCall False)) = 0
          \<or> status (jobs q ! i) = Abandoned \<and> attempts (jobs q ! i) = M
           \<and> count_list T (HandlerEv i (RequeueCall True)) = M - 1
           \<and> count_list T (HandlerEv i (RequeueCall False)) = 1))"

text \<open>
  What holds of a job \<open>i\<close>, \<open>j\<close> at the start, whose fit raises an exception \<open>e\<close> other
  than the numerical failure: it is untouched, or it was leased once, failed, and ended.
\<close>

definition fatal_inv ::
  "exn \<Rightarrow> nat \<Rightarrow> 'k queued_job \<Rightarrow> worker_event list \<Rightarrow> 'k job_queue \<Rightarrow> bool" where
  "fatal_inv e i j T q =
     (i < length (jobs q)
      \<and> (\<forall>ev. HandlerEv i ev \<notin> set T)
      \<and> (jobs q ! i = j \<and> LeaseEv i \<notin> set T \<and> UnexpectedFailure i e \<notin> set T
          \<or> jobs q ! i = j\<lparr>status := Abandoned\<rparr>
             \<and> count_list T (LeaseEv i) = 1 \<and> count_list T (UnexpectedFailure i e) = 1))"

text \<open>
  A queue of four jobs, enqueued in this order under a maximum of three attempts: one
  whose fit always fails numerically, one that fits, one whose fit raises another
  exception, and one that fits at the second attempt.
\<close>

definition example_queue :: "string job_queue" where
  "example_queue =
     fold (\<lambda>k q. snd (enqueue q k True)) [''bad'', ''good'', ''broken'', ''flaky'']
       \<lparr>jobs = [], max_attempts = 3\<rparr>"

definition example_fit :: "string \<Rightarrow> nat \<Rightarrow> exn + unit" where
  "example_fit k n =
     (if k = ''bad'' then Inl ZeroDivisionError
      else if k = ''broken'' then Inl (OtherError ''MemoryError'')
      else if k = ''flaky'' \<and> n = 0 then Inl ZeroDivisionError
      else Inr ())"

section \<open>GenericFigure.py\<close>

subsection \<open>\<open>three_ints\<close>\<close>

text \<open>
  \<^verbatim>\<open>arg.split(",")\<close>: the fields between the commas, in order; a string without a comma is one
  field, and the empty string gives one empty field.
\<close>

fun split_comma :: "string \<Rightarrow> string list" where
  "split_comma [] = [[]]"
| "split_comma (c # cs) =
     (if c = CHR '','' then [] # split_comma cs
      else (c # hd (split_comma cs)) # tl (split_comma cs))"

text \<open>
  \<^verbatim>\<open>
  def three_ints(arg: str):
      a, b, c = arg.split(",")
      return [int(x) - 1 for x in [a, b, c]]
  \<close>
  The builtin \<^verbatim>\<open>int\<close> is the parameter \<open>int_of\<close>: \<open>None\<close> where \<^verbatim>\<open>int(x)\<close> raises
  \<^verbatim>\<open>ValueError\<close>. Unpacking anything but three fields raises \<^verbatim>\<open>ValueError\<close> as well, before any
  field is parsed.
\<close>

definition three_ints :: "(string \<Rightarrow> int option) \<Rightarrow> string \<Rightarrow> exn + int list" where
  "three_ints int_of arg =
     (case split_comma arg of
        [a, b, c] \<Rightarrow>
          (case int_of a of
             None \<Rightarrow> Inl ValueError
           | Some x \<Rightarrow>
               (case int_of b of
                  None \<Rightarrow> Inl ValueError
                | Some y \<Rightarrow>
                    (case int_of c of
                       None \<Rightarrow> Inl ValueError
                     | Some z \<Rightarrow> Inr [x - 1, y - 1, z - 1])))
      | _ \<Rightarrow> Inl ValueError)"

text \<open>
  A parser to run \<open>three_ints\<close> with: \<^verbatim>\<open>int(s)\<close> in base 10 on an ASCII string, that is
  whitespace (space, tab, line feed, vertical tab, form feed, carriage return) stripped at
  both ends, an optional sign, then decimal digits, where single underscores may stand
  between digits.
\<close>

definition is_space :: "char \<Rightarrow> bool" where
  "is_space c = (c \<in> set [CHR '' '', CHR 0x09, CHR 0x0A, CHR 0x0B, CHR 0x0C, CHR 0x0D])"

definition strip :: "string \<Rightarrow> string" where
  "strip s = rev (dropWhile is_space (rev (dropWhile is_space s)))"

definition digit_val :: "char \<Rightarrow> nat option" where
  "digit_val c =
     (if (48::nat) \<le> of_char c \<and> of_char c \<le> (57::nat) then Some (of_char c - 48) else None)"

fun digits_val :: "nat \<Rightarrow> string \<Rightarrow> nat option" where
  "digits_val acc [] = Some acc"
| "digits_val acc (c # cs) =
     (case digit_val c of None \<Rightarrow> None | Some d \<Rightarrow> digits_val (10 * acc + d) cs)"

fun underscores_ok :: "string \<Rightarrow> bool" where
  "underscores_ok [] = False"
| "underscores_ok [c] = (c \<noteq> CHR ''_'')"
| "underscores_ok (c # d # cs) =
     (c \<noteq> CHR ''_'' \<and> (if d = CHR ''_'' then underscores_ok cs else underscores_ok (d # cs)))"

definition py_int :: "string \<Rightarrow> int option" where
  "py_int s =
     (let t = strip s;
          neg = (case t of [] \<Rightarrow> False | c # cs \<Rightarrow> c = CHR ''-'');
          body = (case t of [] \<Rightarrow> [] | c # cs \<Rightarrow> if c = CHR ''-'' \<or> c = CHR ''+'' then cs else t)
      in if underscores_ok body
         then map_option (\<lambda>n. if neg then - int n else int n)
                (digits_val 0 (filter (\<lambda>c. c \<noteq> CHR ''_'') body))
         else None)"

subsection \<open>What the script works with\<close>

text \<open>The parsed command line (\<^verbatim>\<open>args\<close>).\<close>

record args =
  arg_source :: string
  arg_experiments :: string
  arg_base_exp :: string
  arg_states :: "int list option"
  arg_no_show :: bool

text \<open>
  Of a raster the script reads the number of units \<^verbatim>\<open>N\<close> and sets \<^verbatim>\<open>_burst_default_rms\<close>.
\<close>

record raster =
  N :: nat
  burst_default_rms :: int

text \<open>The parameters that identify one fitted model, in the order \<^verbatim>\<open>Model(...)\<close> takes them.\<close>

record model_key =
  key_source :: string
  key_exp :: string
  key_bin_size_ms :: int
  key_n_states :: int
  key_surr :: string
  key_library :: string

text \<open>
  A model handle: its key, the fitted artifact \<^verbatim>\<open>_hmm\<close> (\<open>None\<close> for Python's \<^verbatim>\<open>None\<close>) and
  the entropy statistics that \<^verbatim>\<open>compute_entropy\<close> leaves on it (\<open>None\<close> until it has run).
\<close>

record ('h, 'e) model =
  handle_key :: model_key
  hmm :: "'h option"
  entropy :: "'e option"

text \<open>
  The functions the script imports, as parameters: \<^verbatim>\<open>fnmatch.fnmatch\<close>, the text an f-string
  gives for a list of strings, and of \<^verbatim>\<open>hmmsupport\<close>: \<^verbatim>\<open>all_experiments\<close>, \<^verbatim>\<open>get_raster\<close>,
  \<^verbatim>\<open>load_metrics\<close> (\<open>None\<close> for \<^verbatim>\<open>None\<close>, else the dictionary as a list of keys and arrays), the
  entropy that \<^verbatim>\<open>Model.compute_entropy\<close> computes, the fitter behind the model cache (its
  outcome may change from one attempt to the next) and the bound on its attempts.
\<close>

record ('h, 'e) env =
  fnmatch :: "string \<Rightarrow> string \<Rightarrow> bool"
  repr_list :: "string list \<Rightarrow> string"
  all_experiments :: "string \<Rightarrow> string list"
  get_raster :: "string \<Rightarrow> string \<Rightarrow> int \<Rightarrow> string \<Rightarrow> raster"
  load_metrics :: "string \<Rightarrow> string list \<Rightarrow> (string \<times> int list list) list option"
  compute_entropy :: "'h \<Rightarrow> raster \<Rightarrow> 'e"
  fitter :: "model_key \<Rightarrow> nat \<Rightarrow> exn + 'h"
  retry_bound :: nat

text \<open>What a run of the script does, in order.\<close>

datatype fig_event =
    Stdout string
  | Stderr string
  | GetRaster string string int string
  | CacheLookup model_key
  | FitterCall model_key nat
  | CacheStore model_key
  | ComputeEntropy model_key

type_synonym 'h cache = "model_key \<Rightarrow> 'h option"

subsection \<open>The model handle of \<^verbatim>\<open>hmmsupport\<close>\<close>

text \<open>
  Modelled from the spec: the cache-only access of \<^verbatim>\<open>hmmsupport.Model\<close>, whose code is not
  among the sources. In 4.5 of the spec, \<open>get_or_none\<close> "checks ModelCache only; never
  computes".
\<close>

definition get_or_none :: "'h cache \<Rightarrow> model_key \<Rightarrow> fig_event list \<times> 'h option" where
  "get_or_none c k = ([CacheLookup k], c k)"

text \<open>
  Modelled from the spec: the computing access of \<^verbatim>\<open>hmmsupport.Model\<close>. In 4.5 of the spec,
  \<open>get_or_compute\<close> "calls the Fitter directly, attempts retries locally up to the same
  bounded count, and stores the result if successful"; only the numerical failure is
  retried (4.4), and when every attempt has failed, that failure is the result.
\<close>

fun fit_retrying ::
  "(model_key \<Rightarrow> nat \<Rightarrow> exn + 'h) \<Rightarrow> model_key \<Rightarrow> nat \<Rightarrow> nat \<Rightarrow> fig_event list \<times> (exn + 'h)" where
  "fit_retrying f k i 0 = ([], Inl ZeroDivisionError)"
| "fit_retrying f k i (Suc n) =
     (case f k i of
        Inr h \<Rightarrow> ([FitterCall k i], Inr h)
      | Inl ZeroDivisionError \<Rightarrow>
          (case fit_retrying f k (Suc i) n of (evs, r) \<Rightarrow> (FitterCall k i # evs, r))
      | Inl e \<Rightarrow> ([FitterCall k i], Inl e))"

definition get_or_compute ::
  "('h, 'e) env \<Rightarrow> 'h cache \<Rightarrow> model_key \<Rightarrow> fig_event list \<times> (exn + 'h) \<times> 'h cache" where
  "get_or_compute env c k =
     (case fit_retrying (fitter env) k 0 (retry_bound env) of
        (evs, Inr h) \<Rightarrow> (evs @ [CacheStore k], Inr h, c(k \<mapsto> h))
      | (evs, Inl e) \<Rightarrow> (evs, Inl e, c))"

text \<open>
  Modelled from the spec: the constructor of \<^verbatim>\<open>hmmsupport.Model\<close>. With
  \<^verbatim>\<open>recompute_ok=False\<close> it is \<open>get_or_none\<close>; with \<^verbatim>\<open>recompute_ok=True\<close> it goes on to
  \<open>get_or_compute\<close> for a key the cache does not hold. The handle starts without entropy.
\<close>

definition Model ::
  "('h, 'e) env \<Rightarrow> 'h cache \<Rightarrow> model_key \<Rightarrow> bool
     \<Rightarrow> fig_event list \<times> (exn + ('h, 'e) model) \<times> 'h cache" where
  "Model env c k recompute_ok =
     (case get_or_none c k of
        (evs, Some h) \<Rightarrow> (evs, Inr \<lparr>handle_key = k, hmm = Some h, entropy = None\<rparr>, c)
      | (evs, None) \<Rightarrow>
          if recompute_ok then
            (case get_or_compute env c k of
               (evs', Inr h, c') \<Rightarrow>
                 (evs @ evs', Inr \<lparr>handle_key = k, hmm = Some h, entropy = None\<rparr>, c')
             | (evs', Inl e, c') \<Rightarrow> (evs @ evs', Inl e, c'))
          else (evs, Inr \<lparr>handle_key = k, hmm = None, entropy = None\<rparr>, c))"

subsection \<open>Lines 37 to 77: selecting the experiments and loading their models\<close>

definition experiments :: "('h, 'e) env \<Rightarrow> args \<Rightarrow> string list" where
  "experiments env a =
     filter (\<lambda>exp. fnmatch env exp (arg_experiments a)) (all_experiments env (arg_source a))"

definition base_exps :: "('h, 'e) env \<Rightarrow> args \<Rightarrow> string list" where
  "base_exps env a = filter (\<lambda>exp. fnmatch env exp (arg_base_exp a)) (experiments env a)"

definition surr :: string where
  "surr = ''real''"

definition hmm_library :: string where
  "hmm_library = ''default''"

definition bin_size_ms :: int where
  "bin_size_ms = 30"

definition n_stateses :: "int list" where
  "n_stateses = [10..20]"

text \<open>\<^verbatim>\<open>str(n)\<close> of an integer, as the f-string of \<^verbatim>\<open>process_model\<close> prints it.\<close>

fun str_nat :: "nat \<Rightarrow> string" where
  "str_nat n =
     (if n < 10 then [''0123456789'' ! n]
      else str_nat (n div 10) @ [''0123456789'' ! (n mod 10)])"

definition str_int :: "int \<Rightarrow> string" where
  "str_int i = (if i < 0 then CHR ''-'' # str_nat (nat (- i)) else str_nat (nat i))"

text \<open>
  \<^verbatim>\<open>
  def process_model(n):
      m = Model(source, exp, bin_size_ms, n, surr, library=hmm_library, recompute_ok=False)
      if m._hmm is None:
          print(f"No model for {exp} with {n} states!")
      else:
          m.compute_entropy(r)
      return m
  \<close>
  The free variables \<^verbatim>\<open>source\<close>, \<^verbatim>\<open>exp\<close> and \<^verbatim>\<open>r\<close> of the closure are arguments. What is
  returned is an object, never \<^verbatim>\<open>None\<close>: \<open>Some m\<close> in a type where \<open>None\<close> is Python's \<^verbatim>\<open>None\<close>.
\<close>

definition sweep_key :: "string \<Rightarrow> string \<Rightarrow> int \<Rightarrow> model_key" where
  "sweep_key src exp n =
     \<lparr>key_source = src, key_exp = exp, key_bin_size_ms = bin_size_ms,
      key_n_states = n, key_surr = surr, key_library = hmm_library\<rparr>"

definition process_model ::
  "('h, 'e) env \<Rightarrow> 'h cache \<Rightarrow> string \<Rightarrow> string \<Rightarrow> raster \<Rightarrow> int
     \<Rightarrow> fig_event list \<times> (exn + ('h, 'e) model option) \<times> 'h cache" where
  "process_model env c src exp r n =
     (case Model env c (sweep_key src exp n) False of
        (evs, Inl e, c') \<Rightarrow> (evs, Inl e, c')
      | (evs, Inr m, c') \<Rightarrow>
          (case hmm m of
             None \<Rightarrow>
               (evs @ [Stdout (''No model for '' @ exp @ '' with '' @ str_int n @ '' states!'')],
                Inr (Some m), c')
           | Some h \<Rightarrow>
               (evs @ [ComputeEntropy (sweep_key src exp n)],
                Inr (Some (m\<lparr>entropy := Some (compute_entropy env h r)\<rparr>)), c')))"

text \<open>
  \<^verbatim>\<open>joblib.Parallel(n_jobs=4)(joblib.delayed(process_model)(n) for n in n_stateses)\<close>: the
  results come back in the order of \<^verbatim>\<open>n_stateses\<close>. The calls are taken one after the other
  here; their output is kept in that order too, which the parallel run does not promise.
\<close>

fun process_models ::
  "('h, 'e) env \<Rightarrow> 'h cache \<Rightarrow> string \<Rightarrow> string \<Rightarrow> raster \<Rightarrow> int list
     \<Rightarrow> fig_event list \<times> (exn + ('h, 'e) model option list) \<times> 'h cache" where
  "process_models env c src exp r [] = ([], Inr [], c)"
| "process_models env c src exp r (n # ns) =
     (case process_model env c src exp r n of
        (evs, Inl e, c') \<Rightarrow> (evs, Inl e, c')
      | (evs, Inr m, c') \<Rightarrow>
          (case process_models env c' src exp r ns of
             (evs', Inl e, c'') \<Rightarrow> (evs @ evs', Inl e, c'')
           | (evs', Inr ms, c'') \<Rightarrow> (evs @ evs', Inr (m # ms), c'')))"

type_synonym ('h, 'e) rasters = "string \<Rightarrow> (raster \<times> ('h, 'e) model option list) option"

text \<open>
  \<^verbatim>\<open>
  for exp in tqdm(experiments):
      r = get_raster(source, exp, bin_size_ms, surr)
      r._burst_default_rms = 4
      ...
      rasters[exp] = r, models
  \<close>
\<close>

fun load_rasters ::
  "('h, 'e) env \<Rightarrow> 'h cache \<Rightarrow> string \<Rightarrow> string list \<Rightarrow> ('h, 'e) rasters
     \<Rightarrow> fig_event list \<times> (exn + ('h, 'e) rasters) \<times> 'h cache" where
  "load_rasters env c src [] rasters = ([], Inr rasters, c)"
| "load_rasters env c src (exp # exps) rasters =
     (let r = (get_raster env src exp bin_size_ms surr)\<lparr>burst_default_rms := 4\<rparr>
      in case process_models env c src exp r n_stateses of
           (evs, Inl e, c') \<Rightarrow> (GetRaster src exp bin_size_ms surr # evs, Inl e, c')
         | (evs, Inr models, c') \<Rightarrow>
             (case load_rasters env c' src exps (rasters(exp \<mapsto> (r, models))) of
                (evs', res, c'') \<Rightarrow> (GetRaster src exp bin_size_ms surr # evs @ evs', res, c'')))"

text \<open>
  The script from line 37 to line 77. With no base experiment it prints to standard error
  and calls \<^verbatim>\<open>sys.exit(1)\<close>; otherwise it loads every selected experiment. Two things on
  the second path are left out: \<^verbatim>\<open>hmmsupport.figdir("paper")\<close>, which only says where figures
  go, and the progress bar of \<^verbatim>\<open>tqdm\<close>.
\<close>

definition generic_figure ::
  "('h, 'e) env \<Rightarrow> 'h cache \<Rightarrow> args \<Rightarrow> fig_event list \<times> (exn + ('h, 'e) rasters) \<times> 'h cache" where
  "generic_figure env c a =
     (if base_exps env a = [] then
        ([Stderr (''Invalid experiment '' @ arg_base_exp a @ '' doesn't match any of ''
                  @ repr_list env (experiments env a))],
         Inl (SystemExit 1), c)
      else
        (case load_rasters env c (arg_source a) (experiments env a) Map.empty of
           (evs, res, c') \<Rightarrow>
             (Stdout ''Loading fitted HMMs and calculating entropy.'' # evs, res, c')))"

text \<open>The events that load a raster or a model, and those that run the fitter.\<close>

definition loads :: "fig_event list \<Rightarrow> fig_event list" where
  "loads evs =
     filter (\<lambda>e. case e of GetRaster s x b u \<Rightarrow> True | CacheLookup k \<Rightarrow> True
                   | FitterCall k i \<Rightarrow> True | _ \<Rightarrow> False) evs"

definition fitter_calls :: "fig_event list \<Rightarrow> fig_event list" where
  "fitter_calls evs = filter (\<lambda>e. case e of FitterCall k i \<Rightarrow> True | _ \<Rightarrow> False) evs"

subsection \<open>\<open>good_models\<close>\<close>

text \<open>
  \<^verbatim>\<open>
  def good_models(exp):
      return [m for m in rasters[exp][1] if m is not None]
  \<close>
\<close>

definition good_models :: "('h, 'e) rasters \<Rightarrow> string \<Rightarrow> exn + ('h, 'e) model list" where
  "good_models rasters exp =
     (case rasters exp of
        None \<Rightarrow> Inl KeyError
      | Some (r, models) \<Rightarrow> Inr (concat (map (\<lambda>m. case m of None \<Rightarrow> [] | Some x \<Rightarrow> [x]) models)))"

text \<open>
  Lines 93 to 98 build every entropy statistic of an experiment from
  \<^verbatim>\<open>good_models(exp)\<close>, called on the dictionary the loading loop has filled.
\<close>

definition entropy_models ::
  "('h, 'e) env \<Rightarrow> 'h cache \<Rightarrow> args \<Rightarrow> string \<Rightarrow> exn + ('h, 'e) model list" where
  "entropy_models env c a exp =
     (case generic_figure env c a of
        (evs, Inl e, c') \<Rightarrow> Inl e
      | (evs, Inr rasters, c') \<Rightarrow> good_models rasters exp)"

subsection \<open>\<open>load_unit_order\<close>\<close>

text \<open>\<^verbatim>\<open>np.int32(x)\<close>: the value in 32 bits, two's complement.\<close>

definition int32 :: "int \<Rightarrow> int" where
  "int32 x = signed_take_bit 31 x"

definition arange :: "nat \<Rightarrow> int list" where
  "arange n = map int [0..<n]"

text \<open>
  \<^verbatim>\<open>a[idx] = vals\<close> for one-dimensional arrays, \<open>idx\<close> an array of integers. The values must
  have the length of \<open>idx\<close>, or length one (then the one value is used throughout); any other
  length raises \<^verbatim>\<open>ValueError\<close>. An index \<open>i\<close> with \<open>- length a \<le> i < 0\<close> counts from the end,
  and one outside \<open>- length a \<le> i < length a\<close> raises \<^verbatim>\<open>IndexError\<close>. Where an index occurs
  twice, the later value stays.
\<close>

fun put :: "int list \<Rightarrow> (int \<times> int) list \<Rightarrow> exn + int list" where
  "put a [] = Inr a"
| "put a ((i, v) # ivs) =
     (let n = int (length a); j = (if i < 0 then i + n else i)
      in if 0 \<le> j \<and> j < n then put (a[nat j := v]) ivs else Inl IndexError)"

definition setitem :: "int list \<Rightarrow> int list \<Rightarrow> int list \<Rightarrow> exn + int list" where
  "setitem a idx vals =
     (if length vals = length idx then put a (zip idx vals)
      else if length vals = 1 then put a (zip idx (replicate (length idx) (hd vals)))
      else Inl ValueError)"

text \<open>
  \<^verbatim>\<open>
  def load_unit_order(exp):
      srm = load_metrics(exp, only_include=["mean_rate_ordering"])
      if srm:
          unit_order = np.int32(srm["mean_rate_ordering"].flatten() - 1)
      else:
          print("... Metrics not found, cannot separate packet/non-packet units.")
          unit_order = np.arange(rasters[exp][0].N)

      inverse_unit_order = np.zeros_like(unit_order)
      inverse_unit_order[unit_order] = np.arange(rasters[exp][0].N)
      return unit_order, inverse_unit_order
  \<close>
  \<^verbatim>\<open>if srm\<close> takes \<^verbatim>\<open>None\<close> and the empty dictionary alike as absent. The metrics array holds
  integers and \<^verbatim>\<open>flatten\<close> lists its rows one after the other. With metrics, both arrays are
  32-bit and the values stored are cast; without, they are \<^verbatim>\<open>arange\<close>'s 64-bit integers,
  which a number of units never leaves. The printed line starts with the warning sign
  U+26A0, three bytes in UTF-8.
\<close>

definition metrics_warning :: string where
  "metrics_warning =
     [CHR 0xE2, CHR 0x9A, CHR 0xA0]
     @ '' Metrics not found, cannot separate packet/non-packet units.''"

definition invert ::
  "('h, 'e) rasters \<Rightarrow> string \<Rightarrow> (int \<Rightarrow> int) \<Rightarrow> int list \<Rightarrow> exn + int list \<times> int list" where
  "invert rasters exp cast unit_order =
     (case rasters exp of
        None \<Rightarrow> Inl KeyError
      | Some (r, models) \<Rightarrow>
          (case setitem (replicate (length unit_order) 0) unit_order (map cast (arange (N r))) of
             Inl e \<Rightarrow> Inl e
           | Inr inverse_unit_order \<Rightarrow> Inr (unit_order, inverse_unit_order)))"

definition load_unit_order ::
  "('h, 'e) env \<Rightarrow> ('h, 'e) rasters \<Rightarrow> string \<Rightarrow> fig_event list \<times> (exn + int list \<times> int list)" where
  "load_unit_order env rasters exp =
     (case load_metrics env exp [''mean_rate_ordering''] of
        Some (kv # kvs) \<Rightarrow>
          (case map_of (kv # kvs) ''mean_rate_ordering'' of
             None \<Rightarrow> ([], Inl KeyError)
           | Some arr \<Rightarrow>
               ([], invert rasters exp int32 (map (\<lambda>x. int32 (x - 1)) (concat arr))))
      | _ \<Rightarrow>
          (case rasters exp of
             None \<Rightarrow> ([Stdout metrics_warning], Inl KeyError)
           | Some (r, models) \<Rightarrow>
               ([Stdout metrics_warning], invert rasters exp id (arange (N r)))))"

subsection \<open>A concrete environment\<close>

text \<open>
  To run the script on an input: \<^verbatim>\<open>fnmatch\<close> for patterns of literal characters, \<open>*\<close> and
  \<open>?\<close> (no bracket expressions, names compared as they are), and the text of a list of
  strings that need no escaping.
\<close>

fun glob :: "string \<Rightarrow> string \<Rightarrow> bool" where
  "glob [] [] = True"
| "glob (c # cs) [] = False"
| "glob [] (p # ps) = (p = CHR ''*'' \<and> glob [] ps)"
| "glob (c # cs) (p # ps) =
     (if p = CHR ''*'' then glob (c # cs) ps \<or> glob cs (p # ps)
      else (p = CHR ''?'' \<or> p = c) \<and> glob cs ps)"

fun join_comma :: "string list \<Rightarrow> string" where
  "join_comma [] = []"
| "join_comma [x] = x"
| "join_comma (x # y # ys) = x @ '', '' @ join_comma (y # ys)"

definition repr_plain :: "string list \<Rightarrow> string" where
  "repr_plain xs = ''['' @ join_comma (map (\<lambda>x. [CHR 0x27] @ x @ [CHR 0x27]) xs) @ '']''"

text \<open>
  Two recordings, \<open>e1\<close> with three units and a stored ordering, \<open>e2\<close> with two units and
  no metrics. A fitted model is a number; the cache holds one for every key but those with
  ten states; the fitter fails once and then succeeds.
\<close>

definition example_env :: "(nat, nat) env" where
  "example_env =
     \<lparr>fnmatch = glob,
      repr_list = repr_plain,
      all_experiments = (\<lambda>s. [''e1'', ''e2'']),
      get_raster = (\<lambda>s e b u. \<lparr>N = (if e = ''e1'' then 3 else 2), burst_default_rms = 0\<rparr>),
      load_metrics =
        (\<lambda>e ks. if e = ''e1'' then Some [(''mean_rate_ordering'', [[2, 3, 1]])] else None),
      compute_entropy = (\<lambda>h r. h + N r),
      fitter = (\<lambda>k i. if i = 0 then Inl ZeroDivisionError else Inr (nat (key_n_states k))),
      retry_bound = 3\<rparr>"

definition example_cache :: "nat cache" where
  "example_cache k = (if key_n_states k = 10 then None else Some (nat (key_n_states k)))"

definition example_args :: "string \<Rightarrow> string \<Rightarrow> args" where
  "example_args pat base =
     \<lparr>arg_source = ''src'', arg_experiments = pat, arg_base_exp = base,
      arg_states = None, arg_no_show = True\<rparr>"

text \<open>The dictionary \<^verbatim>\<open>rasters\<close> with both recordings, their models left out.\<close>

definition example_rasters :: "(nat, nat) rasters" where
  "example_rasters =
     [''e1'' \<mapsto> (\<lparr>N = 3, burst_default_rms = 4\<rparr>, []),
      ''e2'' \<mapsto> (\<lparr>N = 2, burst_default_rms = 4\<rparr>, [])]"

section \<open>Properties of \<open>fit_hmm\<close>\<close>

text \<open>
  C1. For every job that \<open>fit_hmm\<close> processes: when the fit raises \<open>ZeroDivisionError\<close>,
  exactly one \<open>requeue\<close> call is made on the job; when the fit raises any other exception, or
  returns, no \<open>requeue\<close> call is made. The count is that of the events and also that of
  the applications of the job's own method: the one call is made on the queue as
  \<open>fit_hmm\<close> found it, its boolean is the one reported, and the queue afterwards is the one
  it left; with no call the queue is unchanged.
\<close>

theorem fit_hmm_requeue_count:
  "requeue_calls (fst (fit_hmm get_fitted_hmm j q)) =
     (if get_fitted_hmm (params j) True = Inl ZeroDivisionError then 1 else 0)
   \<and> requeue_results (fst (fit_hmm get_fitted_hmm j q)) =
     (if get_fitted_hmm (params j) True = Inl ZeroDivisionError then [fst (requeue j q)] else [])
   \<and> snd (snd (fit_hmm get_fitted_hmm j q)) =
     (if get_fitted_hmm (params j) True = Inl ZeroDivisionError then snd (requeue j q) else q)
   \<and> snd (snd (fit_hmm get_fitted_hmm (counting j) (0, q))) =
     (if get_fitted_hmm (params j) True = Inl ZeroDivisionError then (1, snd (requeue j q))
      else (0, q))"
proof (cases "get_fitted_hmm (params j) True")
  case (Inr u)
  then show ?thesis
    by (simp add: fit_hmm_def requeue_calls_def requeue_results_def counting_def)
next
  case (Inl e)
  show ?thesis
  proof (cases "e = ZeroDivisionError")
    case True
    obtain b q' where r: "requeue j q = (b, q')"
      by (cases "requeue j q")
    with Inl True show ?thesis
      by (cases b)
         (simp_all add: fit_hmm_def requeue_calls_def requeue_results_def counting_def)
  next
    case False
    with Inl show ?thesis
      by (cases e)
         (simp_all add: fit_hmm_def requeue_calls_def requeue_results_def counting_def)
  qed
qed

theorem fit_hmm_requeue_count_witness:
  "requeue_calls (fst (fit_hmm example_get_fitted_hmm (example_job 0) 5)) = 1
   \<and> requeue_results (fst (fit_hmm example_get_fitted_hmm (example_job 0) 5)) = [False]
   \<and> snd (snd (fit_hmm example_get_fitted_hmm (example_job 0) 5)) = 6
   \<and> snd (snd (fit_hmm example_get_fitted_hmm (counting (example_job 0)) (0, 5))) = (1, 6)
   \<and> requeue_calls (fst (fit_hmm example_get_fitted_hmm (example_job 1) 5)) = 0
   \<and> snd (snd (fit_hmm example_get_fitted_hmm (counting (example_job 1)) (0, 5))) = (0, 5)
   \<and> requeue_calls (fst (fit_hmm example_get_fitted_hmm (example_job 2) 5)) = 0
   \<and> snd (snd (fit_hmm example_get_fitted_hmm (counting (example_job 2)) (0, 5))) = (0, 5)"
  using fit_hmm_requeue_count [of example_get_fitted_hmm "example_job 0" 5]
    fit_hmm_requeue_count [of example_get_fitted_hmm "example_job 1" 5]
    fit_hmm_requeue_count [of example_get_fitted_hmm "example_job 2" 5]
  by (simp add: example_get_fitted_hmm_def example_job_def)

text \<open>
  C2. Whenever \<open>fit_hmm\<close> calls \<open>requeue\<close> after the fit raised \<open>ZeroDivisionError\<close>, the
  boolean it returns decides the line printed: \<open>True\<close> gives
  \<^verbatim>\<open>Optimization failed, retrying.\<close> and \<open>False\<close> gives \<^verbatim>\<open>Optimization failed.\<close>; nothing
  else is printed, the function returns normally and the queue is the one \<open>requeue\<close> left.
\<close>

theorem fit_hmm_requeue_message:
  assumes "get_fitted_hmm (params j) True = Inl ZeroDivisionError"
    and "requeue j q = (b, q')"
  shows "fit_hmm get_fitted_hmm j q =
           ([RequeueCall b,
             Print (if b then ''Optimization failed, retrying.'' else ''Optimization failed.'')],
            Inr (), q')"
  using assms by (cases b) (simp_all add: fit_hmm_def)

theorem fit_hmm_requeue_message_witness:
  "printed (fst (fit_hmm (\<lambda>p v. Inl ZeroDivisionError)
       \<lparr>params = (), requeue = (\<lambda>q::nat. (q < 3, Suc q))\<rparr> 0)) = [''Optimization failed, retrying.'']
   \<and> printed (fst (fit_hmm (\<lambda>p v. Inl ZeroDivisionError)
       \<lparr>params = (), requeue = (\<lambda>q::nat. (q < 3, Suc q))\<rparr> 3)) = [''Optimization failed.'']"
  using fit_hmm_requeue_message
    [of "\<lambda>p v. Inl ZeroDivisionError" "\<lparr>params = (), requeue = (\<lambda>q::nat. (q < 3, Suc q))\<rparr>"
        0 True 1]
    fit_hmm_requeue_message
    [of "\<lambda>p v. Inl ZeroDivisionError" "\<lparr>params = (), requeue = (\<lambda>q::nat. (q < 3, Suc q))\<rparr>"
        3 False 4]
  by (simp add: printed_def)

section \<open>Properties of the worker loop\<close>

lemma first_pending_Some:
  "first_pending js = Some i \<Longrightarrow> i < length js \<and> status (js ! i) = Pending"
proof (induction js arbitrary: i)
  case Nil
  then show ?case by simp
next
  case (Cons j js)
  then show ?case by (auto split: if_splits)
qed

lemma first_pending_None:
  "first_pending js = None \<longleftrightarrow> (\<forall>j \<in> set js. status j \<noteq> Pending)"
  by (induction js) auto

lemma lease_None: "lease q = None \<longleftrightarrow> (\<forall>j \<in> set (jobs q). status j \<noteq> Pending)"
  by (simp add: lease_def first_pending_None [symmetric] split: option.splits)

lemma worker_iteration_fit_hmm:
  "worker_iteration fit_hmm fit q =
     (case first_pending (jobs q) of None \<Rightarrow> None | Some i \<Rightarrow> Some (iteration_of fit q i))"
proof (cases "first_pending (jobs q)")
  case None
  then show ?thesis by (simp add: worker_iteration_def lease_def)
next
  case (Some i)
  then have i: "i < length (jobs q)"
    using first_pending_Some by blast
  show ?thesis
  proof (cases "fit (job_key (jobs q ! i)) (attempts (jobs q ! i))")
    case (Inr u)
    with Some i show ?thesis
      by (simp add: worker_iteration_def lease_def fit_hmm_def iteration_of_def complete_def)
  next
    case (Inl e)
    with Some i show ?thesis
      by (cases e)
         (simp_all add: worker_iteration_def lease_def fit_hmm_def iteration_of_def
            abandon_def requeue_job_def Let_def)
  qed
qed


lemma iteration_of_frame:
  assumes "i < length (jobs q)"
  shows "max_attempts (snd (iteration_of fit q i)) = max_attempts q"
    and "length (jobs (snd (iteration_of fit q i))) = length (jobs q)"
    and "k \<noteq> i \<Longrightarrow> jobs (snd (iteration_of fit q i)) ! k = jobs q ! k"
    and "job_key (jobs (snd (iteration_of fit q i)) ! i) = job_key (jobs q ! i)"
    and "k \<noteq> i \<Longrightarrow> LeaseEv k \<notin> set (fst (iteration_of fit q i))"
    and "k \<noteq> i \<Longrightarrow> HandlerEv k ev \<notin> set (fst (iteration_of fit q i))"
    and "k \<noteq> i \<Longrightarrow> UnexpectedFailure k e \<notin> set (fst (iteration_of fit q i))"
    and "LeaseEv i \<in> set (fst (iteration_of fit q i))"
  using assms
  by (auto simp: iteration_of_def Let_def split: sum.splits)

lemma sum_list_update_less:
  fixes f :: "'a \<Rightarrow> nat"
  assumes "i < length xs" and "f y < f (xs ! i)"
  shows "sum_list (map f (xs[i := y])) < sum_list (map f xs)"
  using assms
proof (induction xs arbitrary: i)
  case Nil
  then show ?case by simp
next
  case (Cons x xs)
  then show ?case by (cases i) auto
qed

lemma iteration_of_weight:
  assumes i: "i < length (jobs q)" and p: "status (jobs q ! i) = Pending"
  shows "weight (snd (iteration_of fit q i)) < weight q"
proof -
  let ?w = "\<lambda>j. if status j = Pending then Suc (max_attempts q - attempts j) else 0"
  have upd: "?w j' < ?w (jobs q ! i) \<Longrightarrow>
               weight (q\<lparr>jobs := (jobs q)[i := j']\<rparr>) < weight q" for j'
  proof -
    assume "?w j' < ?w (jobs q ! i)"
    then have "sum_list (map ?w ((jobs q)[i := j'])) < sum_list (map ?w (jobs q))"
      by (rule sum_list_update_less [OF i])
    moreover have "weight (q\<lparr>jobs := (jobs q)[i := j']\<rparr>) = sum_list (map ?w ((jobs q)[i := j']))"
      by (simp add: weight_def cong: if_cong)
    moreover have "weight q = sum_list (map ?w (jobs q))"
      by (simp add: weight_def)
    ultimately show ?thesis by simp
  qed
  show ?thesis
    using p by (auto simp: iteration_of_def Let_def split: sum.splits intro!: upd)
qed

lemma worker_iteration_weight:
  "worker_iteration fit_hmm fit q = Some (evs, q') \<Longrightarrow> weight q' < weight q"
proof -
  assume "worker_iteration fit_hmm fit q = Some (evs, q')"
  then obtain i where i: "first_pending (jobs q) = Some i" and r: "iteration_of fit q i = (evs, q')"
    by (auto simp: worker_iteration_fit_hmm split: option.splits)
  from first_pending_Some [OF i] have "weight (snd (iteration_of fit q i)) < weight q"
    by (intro iteration_of_weight) simp_all
  with r show ?thesis by simp
qed

lemma become_worker_done:
  "worker_iteration how fit q = None \<Longrightarrow> become_worker n how fit q = ([], q)"
  by (cases n) simp_all

lemma become_worker_add:
  "become_worker (n + m) how fit q =
     (case become_worker n how fit q of
        (t, q1) \<Rightarrow> (case become_worker m how fit q1 of (t', q2) \<Rightarrow> (t @ t', q2)))"
proof (induction n arbitrary: q)
  case 0
  then show ?case by (simp split: prod.splits)
next
  case (Suc n)
  show ?case
  proof (cases "worker_iteration how fit q")
    case None
    then show ?thesis by (simp add: become_worker_done split: prod.splits)
  next
    case (Some r)
    then show ?thesis
      by (cases r) (simp add: Suc.IH split: prod.splits)
  qed
qed

lemma become_worker_finishes:
  "\<exists>n. worker_iteration fit_hmm fit (snd (become_worker n fit_hmm fit q)) = None"
proof (induction "weight q" arbitrary: q rule: less_induct)
  case less
  show ?case
  proof (cases "worker_iteration fit_hmm fit q")
    case None
    then have "worker_iteration fit_hmm fit (snd (become_worker 0 fit_hmm fit q)) = None"
      by simp
    then show ?thesis by blast
  next
    case (Some r)
    obtain evs q' where r: "r = (evs, q')" by (cases r)
    from Some r worker_iteration_weight have "weight q' < weight q" by blast
    from less [OF this] obtain n where
      "worker_iteration fit_hmm fit (snd (become_worker n fit_hmm fit q')) = None" by blast
    with Some r have "worker_iteration fit_hmm fit (snd (become_worker (Suc n) fit_hmm fit q)) = None"
      by (cases "become_worker n fit_hmm fit q'") simp
    then show ?thesis by blast
  qed
qed

lemma become_worker_stable:
  assumes "worker_iteration how fit (snd (become_worker n0 how fit q)) = None" and "n0 \<le> n"
  shows "become_worker n how fit q = become_worker n0 how fit q"
proof -
  from assms(2) obtain m where n: "n = n0 + m"
    using le_Suc_ex by blast
  obtain t q1 where r: "become_worker n0 how fit q = (t, q1)"
    by (cases "become_worker n0 how fit q")
  with assms(1) have "become_worker m how fit q1 = ([], q1)"
    by (simp add: become_worker_done)
  with r n show ?thesis
    by (simp add: become_worker_add)
qed


lemma retry_inv_iteration:
  assumes inv: "retry_inv K M i T q"
    and fail: "\<forall>n. fit K n = Inl ZeroDivisionError"
    and k: "first_pending (jobs q) = Some k"
  shows "retry_inv K M i (T @ fst (iteration_of fit q k)) (snd (iteration_of fit q k))"
proof (cases "k = i")
  case True
  from first_pending_Some [OF k] True have p: "status (jobs q ! i) = Pending" by simp
  with inv have a: "attempts (jobs q ! i) < M" "i < length (jobs q)" "max_attempts q = M"
    "job_key (jobs q ! i) = K" "count_list T (LeaseEv i) = attempts (jobs q ! i)"
    "count_list T (HandlerEv i (RequeueCall True)) = attempts (jobs q ! i)"
    "count_list T (HandlerEv i (RequeueCall False)) = 0"
    by (auto simp: retry_inv_def)
  from fail a have f: "fit (job_key (jobs q ! i)) (attempts (jobs q ! i)) = Inl ZeroDivisionError"
    by simp
  show ?thesis
  proof (cases "Suc (attempts (jobs q ! i)) < M")
    case True
    with a f \<open>k = i\<close> show ?thesis
      by (simp add: retry_inv_def iteration_of_def Let_def)
  next
    case False
    with a have "Suc (attempts (jobs q ! i)) = M" by simp
    with a f \<open>k = i\<close> show ?thesis
      by (auto simp: retry_inv_def iteration_of_def Let_def)
  qed
next
  case False
  from first_pending_Some [OF k] have kl: "k < length (jobs q)" by simp
  from False have ne: "i \<noteq> k" by simp
  note fr = iteration_of_frame [OF kl, where fit = fit]
  have same: "jobs (snd (iteration_of fit q k)) ! i = jobs q ! i"
    using fr(3) [OF ne] .
  have none: "count_list (fst (iteration_of fit q k)) (LeaseEv i) = 0"
    "count_list (fst (iteration_of fit q k)) (HandlerEv i ev) = 0" for ev
    using fr(5) [OF ne] fr(6) [OF ne] by simp_all
  from inv show ?thesis
    unfolding retry_inv_def same none count_list_append fr(1) fr(2) by simp
qed

lemma retry_inv_run:
  assumes "retry_inv K M i T q" and "\<forall>n. fit K n = Inl ZeroDivisionError"
  shows "retry_inv K M i (T @ fst (become_worker n fit_hmm fit q))
           (snd (become_worker n fit_hmm fit q))"
  using assms(1)
proof (induction n arbitrary: T q)
  case 0
  then show ?case by simp
next
  case (Suc n)
  show ?case
  proof (cases "first_pending (jobs q)")
    case None
    with Suc.prems show ?thesis
      by (simp add: worker_iteration_fit_hmm)
  next
    case (Some k)
    obtain evs q' where it: "iteration_of fit q k = (evs, q')"
      by (cases "iteration_of fit q k")
    from retry_inv_iteration [where fit = fit and k = k and q = q] Suc.prems assms(2) Some it
    have "retry_inv K M i (T @ evs) q'" by simp
    from Suc.IH [OF this] Some it show ?thesis
      by (cases "become_worker n fit_hmm fit q'") (simp add: worker_iteration_fit_hmm)
  qed
qed


lemma worker_iteration_None:
  "worker_iteration fit_hmm fit q = None \<longleftrightarrow> lease q = None"
  by (simp add: worker_iteration_fit_hmm lease_def split: option.splits)

text \<open>
  C5. For a job that starts Pending with no attempts, under a maximum of at least one, and
  whose fit always raises the numerical failure: the worker's run ends; in it the job is
  leased \<open>max_attempts\<close> times and requeued \<open>max_attempts - 1\<close> times, the next requeue is
  rejected and leaves the job Abandoned; its counter never exceeds the maximum at any point
  of the run; and at any point where the job is Abandoned, all its leases and requeues have
  already happened, so that it is never leased or retried again.
\<close>

theorem retry_bound:
  assumes i: "i < length (jobs q)"
    and p: "status (jobs q ! i) = Pending"
    and a0: "attempts (jobs q ! i) = 0"
    and m: "0 < max_attempts q"
    and fail: "\<forall>n. fit (job_key (jobs q ! i)) n = Inl ZeroDivisionError"
  shows "\<exists>n0 tr q'.
           (\<forall>n \<ge> n0. become_worker n fit_hmm fit q = (tr, q')) \<and> lease q' = None
           \<and> count_list tr (LeaseEv i) = max_attempts q
           \<and> count_list tr (HandlerEv i (RequeueCall True)) = max_attempts q - 1
           \<and> count_list tr (HandlerEv i (RequeueCall False)) = 1
           \<and> status (jobs q' ! i) = Abandoned
           \<and> attempts (jobs q' ! i) = max_attempts q
           \<and> (\<forall>n. attempts (jobs (snd (become_worker n fit_hmm fit q)) ! i) \<le> max_attempts q)
           \<and> (\<forall>n. status (jobs (snd (become_worker n fit_hmm fit q)) ! i) = Abandoned \<longrightarrow>
                  count_list (fst (become_worker n fit_hmm fit q)) (LeaseEv i) = max_attempts q
                  \<and> count_list (fst (become_worker n fit_hmm fit q)) (HandlerEv i (RequeueCall True))
                      = max_attempts q - 1)"
proof -
  let ?K = "job_key (jobs q ! i)" and ?M = "max_attempts q"
  let ?run = "\<lambda>n. become_worker n fit_hmm fit q"
  have "retry_inv ?K ?M i [] q"
    using i p a0 m by (simp add: retry_inv_def)
  from retry_inv_run [where fit = fit and K = ?K and q = q, OF this fail] have inv: "retry_inv ?K ?M i (fst (?run n)) (snd (?run n))" for n
    by simp
  from become_worker_finishes obtain n0 where
    fin: "worker_iteration fit_hmm fit (snd (?run n0)) = None" by blast
  obtain tr q' where r: "?run n0 = (tr, q')"
    by (cases "?run n0")
  from fin r have none: "lease q' = None"
    by (simp add: worker_iteration_None)
  from become_worker_stable [OF fin] r have all: "\<forall>n \<ge> n0. ?run n = (tr, q')"
    by simp
  from inv [of n0] r have inv0: "retry_inv ?K ?M i tr q'"
    by simp
  then have "i < length (jobs q')"
    by (simp add: retry_inv_def)
  with none have "status (jobs q' ! i) \<noteq> Pending"
    by (simp add: lease_None)
  with inv0 have final: "count_list tr (LeaseEv i) = ?M"
    "count_list tr (HandlerEv i (RequeueCall True)) = ?M - 1"
    "count_list tr (HandlerEv i (RequeueCall False)) = 1"
    "status (jobs q' ! i) = Abandoned" "attempts (jobs q' ! i) = ?M"
    by (auto simp: retry_inv_def)
  have le: "\<forall>n. attempts (jobs (snd (?run n)) ! i) \<le> ?M"
  proof
    fix n
    from inv [of n] show "attempts (jobs (snd (?run n)) ! i) \<le> ?M"
      by (auto simp: retry_inv_def)
  qed
  have after: "\<forall>n. status (jobs (snd (?run n)) ! i) = Abandoned \<longrightarrow>
                  count_list (fst (?run n)) (LeaseEv i) = ?M
                  \<and> count_list (fst (?run n)) (HandlerEv i (RequeueCall True)) = ?M - 1"
  proof
    fix n
    from inv [of n] show "status (jobs (snd (?run n)) ! i) = Abandoned \<longrightarrow>
                  count_list (fst (?run n)) (LeaseEv i) = ?M
                  \<and> count_list (fst (?run n)) (HandlerEv i (RequeueCall True)) = ?M - 1"
      by (auto simp: retry_inv_def)
  qed
  from all none final le after show ?thesis
    by blast
qed

theorem retry_bound_witness:
  "become_worker 20 fit_hmm example_fit example_queue
     = become_worker 30 fit_hmm example_fit example_queue
   \<and> count_list (fst (become_worker 30 fit_hmm example_fit example_queue)) (LeaseEv 0) = 3
   \<and> count_list (fst (become_worker 30 fit_hmm example_fit example_queue))
        (HandlerEv 0 (RequeueCall True)) = 2
   \<and> count_list (fst (become_worker 30 fit_hmm example_fit example_queue))
        (HandlerEv 0 (RequeueCall False)) = 1
   \<and> status (jobs (snd (become_worker 30 fit_hmm example_fit example_queue)) ! 0) = Abandoned
   \<and> attempts (jobs (snd (become_worker 30 fit_hmm example_fit example_queue)) ! 0) = 3
   \<and> status (jobs (snd (become_worker 3 fit_hmm example_fit example_queue)) ! 0) = Abandoned
   \<and> count_list (fst (become_worker 3 fit_hmm example_fit example_queue)) (LeaseEv 0) = 3"
proof -
  have i: "0 < length (jobs example_queue)"
    and p: "status (jobs example_queue ! 0) = Pending"
    and a0: "attempts (jobs example_queue ! 0) = 0"
    and m: "0 < max_attempts example_queue"
    and mx: "max_attempts example_queue = 3"
    by (simp_all add: example_queue_def enqueue_def)
  have fail: "\<forall>n. example_fit (job_key (jobs example_queue ! 0)) n = Inl ZeroDivisionError"
    by (simp add: example_queue_def enqueue_def example_fit_def)
  have ab: "status (jobs (snd (become_worker 3 fit_hmm example_fit example_queue)) ! 0) = Abandoned"
    by code_simp
  have same: "become_worker 20 fit_hmm example_fit example_queue
                = become_worker 30 fit_hmm example_fit example_queue"
    by code_simp
  have fin: "worker_iteration fit_hmm example_fit
               (snd (become_worker 20 fit_hmm example_fit example_queue)) = None"
    by code_simp
  from retry_bound [where fit = example_fit and q = example_queue and i = 0, OF i p a0 m fail]
  obtain n0 tr q' where
    run: "\<forall>n \<ge> n0. become_worker n fit_hmm example_fit example_queue = (tr, q')"
    and c: "count_list tr (LeaseEv 0) = 3" "count_list tr (HandlerEv 0 (RequeueCall True)) = 3 - 1"
      "count_list tr (HandlerEv 0 (RequeueCall False)) = 1"
      "status (jobs q' ! 0) = Abandoned" "attempts (jobs q' ! 0) = 3"
    and after: "\<forall>n. status (jobs (snd (become_worker n fit_hmm example_fit example_queue)) ! 0)
                    = Abandoned \<longrightarrow>
                  count_list (fst (become_worker n fit_hmm example_fit example_queue)) (LeaseEv 0) = 3"
    unfolding mx by blast
  from run have "become_worker (max n0 20) fit_hmm example_fit example_queue = (tr, q')"
    by simp
  moreover from become_worker_stable [OF fin, of "max n0 20"] same
  have "become_worker (max n0 20) fit_hmm example_fit example_queue
          = become_worker 30 fit_hmm example_fit example_queue"
    by simp
  ultimately have "become_worker 30 fit_hmm example_fit example_queue = (tr, q')"
    by simp
  with c after ab same show ?thesis
    by simp
qed


lemma run_untouched:
  assumes "k < length (jobs q)" and "status (jobs q ! k) \<noteq> Pending"
  shows "jobs (snd (become_worker n fit_hmm fit q)) ! k = jobs q ! k
         \<and> k < length (jobs (snd (become_worker n fit_hmm fit q)))
         \<and> LeaseEv k \<notin> set (fst (become_worker n fit_hmm fit q))"
  using assms
proof (induction n arbitrary: q)
  case 0
  then show ?case by simp
next
  case (Suc n)
  show ?case
  proof (cases "first_pending (jobs q)")
    case None
    with Suc.prems show ?thesis
      by (simp add: worker_iteration_fit_hmm)
  next
    case (Some k0)
    obtain evs q' where it: "iteration_of fit q k0 = (evs, q')"
      by (cases "iteration_of fit q k0")
    from first_pending_Some [OF Some] Suc.prems have k0: "k0 < length (jobs q)" "k \<noteq> k0"
      by auto
    note fr = iteration_of_frame [OF k0(1), where fit = fit]
    from fr(2) fr(3) [OF k0(2)] fr(5) [OF k0(2)] it Suc.prems
    have q': "k < length (jobs q')" "jobs q' ! k = jobs q ! k" "LeaseEv k \<notin> set evs"
      by simp_all
    with Suc.prems have "status (jobs q' ! k) \<noteq> Pending" by simp
    from Suc.IH [OF q'(1) this] q' Some it show ?thesis
      by (cases "become_worker n fit_hmm fit q'") (simp add: worker_iteration_fit_hmm)
  qed
qed

lemma run_leased_or_same:
  assumes "k < length (jobs q)"
  shows "length (jobs (snd (become_worker n fit_hmm fit q))) = length (jobs q)
         \<and> (LeaseEv k \<in> set (fst (become_worker n fit_hmm fit q))
              \<or> jobs (snd (become_worker n fit_hmm fit q)) ! k = jobs q ! k)"
  using assms
proof (induction n arbitrary: q)
  case 0
  then show ?case by simp
next
  case (Suc n)
  show ?case
  proof (cases "first_pending (jobs q)")
    case None
    then show ?thesis
      by (simp add: worker_iteration_fit_hmm)
  next
    case (Some k0)
    obtain evs q' where it: "iteration_of fit q k0 = (evs, q')"
      by (cases "iteration_of fit q k0")
    from first_pending_Some [OF Some] have k0: "k0 < length (jobs q)"
      by simp
    note fr = iteration_of_frame [OF k0, where fit = fit]
    from fr(2) it Suc.prems have len: "length (jobs q') = length (jobs q)" "k < length (jobs q')"
      by simp_all
    have "LeaseEv k \<in> set evs \<or> jobs q' ! k = jobs q ! k"
    proof (cases "k = k0")
      case True
      with fr(8) it show ?thesis by simp
    next
      case False
      with fr(3) [of k] it show ?thesis by simp
    qed
    with Suc.IH [OF len(2)] len Some it show ?thesis
      by (cases "become_worker n fit_hmm fit q'") (auto simp: worker_iteration_fit_hmm)
  qed
qed

lemma fatal_inv_iteration:
  assumes inv: "fatal_inv e i j T q"
    and p: "status j = Pending"
    and f: "fit (job_key j) (attempts j) = Inl e"
    and ne: "e \<noteq> ZeroDivisionError"
    and k: "first_pending (jobs q) = Some k"
  shows "fatal_inv e i j (T @ fst (iteration_of fit q k)) (snd (iteration_of fit q k))"
proof (cases "k = i")
  case True
  from first_pending_Some [OF k] True have "status (jobs q ! i) = Pending" by simp
  with inv have a: "jobs q ! i = j" "LeaseEv i \<notin> set T" "i < length (jobs q)"
    "\<forall>ev. HandlerEv i ev \<notin> set T" "UnexpectedFailure i e \<notin> set T"
    by (auto simp: fatal_inv_def)
  with f ne \<open>k = i\<close> show ?thesis
    by (simp add: fatal_inv_def iteration_of_def Let_def)
next
  case False
  from first_pending_Some [OF k] have kl: "k < length (jobs q)" by simp
  from False have ne: "i \<noteq> k" by simp
  note fr = iteration_of_frame [OF kl, where fit = fit]
  have same: "jobs (snd (iteration_of fit q k)) ! i = jobs q ! i"
    using fr(3) [OF ne] .
  have none: "LeaseEv i \<notin> set (fst (iteration_of fit q k))"
    "HandlerEv i ev \<notin> set (fst (iteration_of fit q k))"
    "UnexpectedFailure i e \<notin> set (fst (iteration_of fit q k))" for ev
    using fr(5) [OF ne] fr(6) [OF ne] fr(7) [OF ne] by simp_all
  from inv show ?thesis
    unfolding fatal_inv_def same fr(2) by (auto simp: none)
qed

lemma fatal_inv_run:
  assumes "fatal_inv e i j T q" and "status j = Pending"
    and "fit (job_key j) (attempts j) = Inl e" and "e \<noteq> ZeroDivisionError"
  shows "fatal_inv e i j (T @ fst (become_worker n fit_hmm fit q))
           (snd (become_worker n fit_hmm fit q))"
  using assms(1)
proof (induction n arbitrary: T q)
  case 0
  then show ?case by simp
next
  case (Suc n)
  show ?case
  proof (cases "first_pending (jobs q)")
    case None
    with Suc.prems show ?thesis
      by (simp add: worker_iteration_fit_hmm)
  next
    case (Some k)
    obtain evs q' where it: "iteration_of fit q k = (evs, q')"
      by (cases "iteration_of fit q k")
    from fatal_inv_iteration [where fit = fit and k = k and q = q and j = j]
      Suc.prems assms(2-4) Some it
    have "fatal_inv e i j (T @ evs) q'" by simp
    from Suc.IH [OF this] Some it show ?thesis
      by (cases "become_worker n fit_hmm fit q'") (simp add: worker_iteration_fit_hmm)
  qed
qed

text \<open>
  C3. For a Pending job whose fit raises an exception other than the numerical failure:
  the worker's run ends with no job left Pending; the run logs one unexpected failure for
  that job, carrying the exception, after its one lease; \<open>fit_hmm\<close> makes no requeue call
  and prints nothing for it; the job ends Abandoned and nothing else of it changes. Every
  other job that was Pending is leased all the same, and every job that was not Pending
  (one leased to another worker, say) is left exactly as it was.
\<close>

theorem unexpected_failure_local:
  assumes i: "i < length (jobs q)"
    and p: "status (jobs q ! i) = Pending"
    and f: "fit (job_key (jobs q ! i)) (attempts (jobs q ! i)) = Inl e"
    and ne: "e \<noteq> ZeroDivisionError"
  shows "\<exists>n0 tr q'.
           (\<forall>n \<ge> n0. become_worker n fit_hmm fit q = (tr, q')) \<and> lease q' = None
           \<and> count_list tr (UnexpectedFailure i e) = 1
           \<and> count_list tr (LeaseEv i) = 1
           \<and> (\<forall>ev. HandlerEv i ev \<notin> set tr)
           \<and> jobs q' ! i = (jobs q ! i)\<lparr>status := Abandoned\<rparr>
           \<and> length (jobs q') = length (jobs q)
           \<and> (\<forall>k < length (jobs q).
                 if status (jobs q ! k) = Pending then LeaseEv k \<in> set tr
                 else jobs q' ! k = jobs q ! k \<and> LeaseEv k \<notin> set tr)"
proof -
  let ?run = "\<lambda>n. become_worker n fit_hmm fit q"
  have "fatal_inv e i (jobs q ! i) [] q"
    using i by (simp add: fatal_inv_def)
  from fatal_inv_run [where fit = fit and q = q, OF this p f ne]
  have inv: "fatal_inv e i (jobs q ! i) (fst (?run n)) (snd (?run n))" for n
    by simp
  from become_worker_finishes obtain n0 where
    fin: "worker_iteration fit_hmm fit (snd (?run n0)) = None" by blast
  obtain tr q' where r: "?run n0 = (tr, q')"
    by (cases "?run n0")
  from fin r have none: "lease q' = None"
    by (simp add: worker_iteration_None)
  from become_worker_stable [OF fin] r have all: "\<forall>n \<ge> n0. ?run n = (tr, q')"
    by simp
  from inv [of n0] r have inv0: "fatal_inv e i (jobs q ! i) tr q'"
    by simp
  then have "i < length (jobs q')"
    by (simp add: fatal_inv_def)
  with none have "status (jobs q' ! i) \<noteq> Pending"
    by (simp add: lease_None)
  with inv0 p have final: "count_list tr (UnexpectedFailure i e) = 1" "count_list tr (LeaseEv i) = 1"
    "\<forall>ev. HandlerEv i ev \<notin> set tr" "jobs q' ! i = (jobs q ! i)\<lparr>status := Abandoned\<rparr>"
    by (auto simp: fatal_inv_def)
  have len: "length (jobs q') = length (jobs q)"
    using run_leased_or_same [OF i, of n0 fit] r by simp
  have others: "\<forall>k < length (jobs q).
                 if status (jobs q ! k) = Pending then LeaseEv k \<in> set tr
                 else jobs q' ! k = jobs q ! k \<and> LeaseEv k \<notin> set tr"
  proof (intro allI impI)
    fix k assume k: "k < length (jobs q)"
    show "if status (jobs q ! k) = Pending then LeaseEv k \<in> set tr
          else jobs q' ! k = jobs q ! k \<and> LeaseEv k \<notin> set tr"
    proof (cases "status (jobs q ! k) = Pending")
      case True
      from k len none have "status (jobs q' ! k) \<noteq> Pending"
        by (simp add: lease_None)
      with True run_leased_or_same [OF k, of n0 fit] r show ?thesis
        by auto
    next
      case False
      with run_untouched [OF k False, of n0 fit] r show ?thesis
        by simp
    qed
  qed
  from all none final len others show ?thesis
    by blast
qed


theorem unexpected_failure_local_witness:
  "become_worker 20 fit_hmm example_fit example_queue
     = become_worker 30 fit_hmm example_fit example_queue
   \<and> count_list (fst (become_worker 30 fit_hmm example_fit example_queue))
        (UnexpectedFailure 2 (OtherError ''MemoryError'')) = 1
   \<and> count_list (fst (become_worker 30 fit_hmm example_fit example_queue)) (LeaseEv 2) = 1
   \<and> HandlerEv 2 (RequeueCall True)
        \<notin> set (fst (become_worker 30 fit_hmm example_fit example_queue))
   \<and> status (jobs (snd (become_worker 30 fit_hmm example_fit example_queue)) ! 2) = Abandoned
   \<and> LeaseEv 3 \<in> set (fst (become_worker 30 fit_hmm example_fit example_queue))"
proof -
  have i: "2 < length (jobs example_queue)"
    and p: "status (jobs example_queue ! 2) = Pending"
    and p3: "status (jobs example_queue ! 3) = Pending"
    and l3: "3 < length (jobs example_queue)"
    by (simp_all add: example_queue_def enqueue_def)
  have f: "example_fit (job_key (jobs example_queue ! 2)) (attempts (jobs example_queue ! 2))
             = Inl (OtherError ''MemoryError'')"
    by (simp add: example_queue_def enqueue_def example_fit_def)
  have same: "become_worker 20 fit_hmm example_fit example_queue
                = become_worker 30 fit_hmm example_fit example_queue"
    by code_simp
  have fin: "worker_iteration fit_hmm example_fit
               (snd (become_worker 20 fit_hmm example_fit example_queue)) = None"
    by code_simp
  from unexpected_failure_local
    [where fit = example_fit and q = example_queue and i = 2, OF i p f]
  obtain n0 tr q' where
    run: "\<forall>n \<ge> n0. become_worker n fit_hmm example_fit example_queue = (tr, q')"
    and c: "count_list tr (UnexpectedFailure 2 (OtherError ''MemoryError'')) = 1"
      "count_list tr (LeaseEv 2) = 1" "\<forall>ev. HandlerEv 2 ev \<notin> set tr"
      "jobs q' ! 2 = (jobs example_queue ! 2)\<lparr>status := Abandoned\<rparr>"
    and others: "\<forall>k < length (jobs example_queue).
                 if status (jobs example_queue ! k) = Pending then LeaseEv k \<in> set tr
                 else jobs q' ! k = jobs example_queue ! k \<and> LeaseEv k \<notin> set tr"
    by auto
  from others l3 p3 have three: "LeaseEv 3 \<in> set tr"
    by (auto elim: allE [of _ 3])
  from run have "become_worker (max n0 20) fit_hmm example_fit example_queue = (tr, q')"
    by simp
  moreover from become_worker_stable [OF fin, of "max n0 20"] same
  have "become_worker (max n0 20) fit_hmm example_fit example_queue
          = become_worker 30 fit_hmm example_fit example_queue"
    by simp
  ultimately have "become_worker 30 fit_hmm example_fit example_queue = (tr, q')"
    by simp
  with c three same show ?thesis
    by simp
qed

section \<open>Properties of \<open>three_ints\<close>\<close>

lemma split_comma_not_Nil: "split_comma s \<noteq> []"
  by (induction s) auto

lemma split_comma_no_comma: "CHR '','' \<notin> set s \<Longrightarrow> split_comma s = [s]"
  by (induction s) auto

lemma split_comma_append:
  "CHR '','' \<notin> set a \<Longrightarrow> split_comma (a @ CHR '','' # rest) = a # split_comma rest"
  by (induction a) auto

lemma split_comma_Cons:
  "split_comma s = f # fs \<Longrightarrow>
     CHR '','' \<notin> set f \<and>
     (if fs = [] then s = f else \<exists>rest. s = f @ CHR '','' # rest \<and> split_comma rest = fs)"
proof (induction s arbitrary: f fs)
  case Nil
  then show ?case by simp
next
  case (Cons c cs)
  show ?case
  proof (cases "c = CHR '',''")
    case True
    with Cons.prems show ?thesis by (auto simp: split_comma_not_Nil)
  next
    case False
    obtain g gs where g: "split_comma cs = g # gs"
      using split_comma_not_Nil by (cases "split_comma cs") auto
    with False Cons.prems have f: "f = c # g" "fs = gs" by auto
    from Cons.IH [OF g] f False show ?thesis by auto
  qed
qed

lemma split_comma_three:
  "split_comma s = [a, b, c] \<longleftrightarrow>
     s = a @ '','' @ b @ '','' @ c \<and> CHR '','' \<notin> set a \<and> CHR '','' \<notin> set b \<and> CHR '','' \<notin> set c"
proof
  assume h: "split_comma s = [a, b, c]"
  from split_comma_Cons [OF h] obtain r1 where r1: "s = a @ CHR '','' # r1" "split_comma r1 = [b, c]"
    and a: "CHR '','' \<notin> set a" by auto
  from split_comma_Cons [OF r1(2)] obtain r2 where r2: "r1 = b @ CHR '','' # r2" "split_comma r2 = [c]"
    and b: "CHR '','' \<notin> set b" by auto
  from split_comma_Cons [OF r2(2)] have "r2 = c" "CHR '','' \<notin> set c" by auto
  with r1 r2 a b
  show "s = a @ '','' @ b @ '','' @ c \<and> CHR '','' \<notin> set a \<and> CHR '','' \<notin> set b \<and> CHR '','' \<notin> set c"
    by simp
next
  assume "s = a @ '','' @ b @ '','' @ c \<and> CHR '','' \<notin> set a \<and> CHR '','' \<notin> set b \<and> CHR '','' \<notin> set c"
  then show "split_comma s = [a, b, c]"
    by (simp add: split_comma_append split_comma_no_comma)
qed

text \<open>
  C9. \<open>three_ints\<close> succeeds exactly when its argument consists of three fields separated
  by two commas, each field free of commas and parsed by \<open>int\<close>; the result is then the three
  values, each less one, in order. On every other argument it raises \<^verbatim>\<open>ValueError\<close>.
\<close>

theorem three_ints_iff:
  "(three_ints int_of arg = Inr ys \<longleftrightarrow>
      (\<exists>a b c x y z. arg = a @ '','' @ b @ '','' @ c \<and> CHR '','' \<notin> set (a @ b @ c)
         \<and> int_of a = Some x \<and> int_of b = Some y \<and> int_of c = Some z
         \<and> ys = [x - 1, y - 1, z - 1]))
   \<and> (three_ints int_of arg = Inl ValueError \<longleftrightarrow>
      \<not> (\<exists>a b c x y z. arg = a @ '','' @ b @ '','' @ c \<and> CHR '','' \<notin> set (a @ b @ c)
         \<and> int_of a = Some x \<and> int_of b = Some y \<and> int_of c = Some z))"
proof -
  have fields: "(\<exists>a b c x y z. arg = a @ '','' @ b @ '','' @ c \<and> CHR '','' \<notin> set (a @ b @ c)
         \<and> int_of a = Some x \<and> int_of b = Some y \<and> int_of c = Some z \<and> P x y z)
     \<longleftrightarrow> (\<exists>a b c x y z. split_comma arg = [a, b, c]
         \<and> int_of a = Some x \<and> int_of b = Some y \<and> int_of c = Some z \<and> P x y z)" for P
    unfolding split_comma_three by auto
  have ok: "three_ints int_of arg = Inr ys \<longleftrightarrow>
      (\<exists>a b c x y z. split_comma arg = [a, b, c]
         \<and> int_of a = Some x \<and> int_of b = Some y \<and> int_of c = Some z
         \<and> ys = [x - 1, y - 1, z - 1])"
    by (auto simp: three_ints_def split: list.splits option.splits)
  have bad: "three_ints int_of arg = Inl ValueError \<longleftrightarrow>
      \<not> (\<exists>a b c x y z. split_comma arg = [a, b, c]
         \<and> int_of a = Some x \<and> int_of b = Some y \<and> int_of c = Some z \<and> True)"
    by (auto simp: three_ints_def split: list.splits option.splits)
  show ?thesis
    using ok bad fields [of "\<lambda>x y z. ys = [x - 1, y - 1, z - 1]"] fields [of "\<lambda>x y z. True"]
    by simp
qed

theorem three_ints_iff_witness:
  "three_ints py_int ''3,1,12'' = Inr [2, 0, 11]
   \<and> three_ints py_int ''3,x,12'' = Inl ValueError
   \<and> (\<nexists>a b c x y z. ''3,x,12'' = a @ '','' @ b @ '','' @ c \<and> CHR '','' \<notin> set (a @ b @ c)
         \<and> py_int a = Some x \<and> py_int b = Some y \<and> py_int c = Some z)"
proof -
  have p: "py_int ''3'' = Some 3" "py_int ''1'' = Some 1" "py_int ''12'' = Some 12"
    by code_simp+
  have "\<exists>a b c x y z. ''3,1,12'' = a @ '','' @ b @ '','' @ c \<and> CHR '','' \<notin> set (a @ b @ c)
         \<and> py_int a = Some x \<and> py_int b = Some y \<and> py_int c = Some z
         \<and> [2, 0, 11] = [x - 1, y - 1, z - 1]"
    using p by (intro exI [of _ "''3''"] exI [of _ "''1''"] exI [of _ "''12''"]
        exI [of _ 3] exI [of _ 1] exI [of _ 12]) simp
  then have one: "three_ints py_int ''3,1,12'' = Inr [2, 0, 11]"
    using three_ints_iff [of py_int "''3,1,12''" "[2, 0, 11]"] by blast
  have two: "three_ints py_int ''3,x,12'' = Inl ValueError"
    by code_simp
  from one two three_ints_iff [of py_int "''3,x,12''" "[]"] show ?thesis
    by blast
qed

section \<open>Properties of the script\<close>

text \<open>
  C10. If the pattern for the base experiments matches none of the selected experiments,
  the script prints one line to standard error, which names the pattern and lists the
  selected experiments, and exits with status 1; it has loaded no raster and no model.
\<close>

theorem generic_figure_no_base_exp:
  assumes "base_exps env a = []"
  shows "generic_figure env c a =
           ([Stderr (''Invalid experiment '' @ arg_base_exp a @ '' doesn't match any of ''
                     @ repr_list env (experiments env a))],
            Inl (SystemExit 1), c)
         \<and> loads (fst (generic_figure env c a)) = []"
  using assms by (simp add: generic_figure_def loads_def)

theorem generic_figure_no_base_exp_witness:
  "base_exps example_env (example_args ''e?'' ''x*'') = []
   \<and> generic_figure example_env example_cache (example_args ''e?'' ''x*'') =
       ([Stderr ''Invalid experiment x* doesn't match any of ['e1', 'e2']''],
        Inl (SystemExit 1), example_cache)
   \<and> loads (fst (generic_figure example_env example_cache (example_args ''e?'' ''x*''))) = []"
proof -
  have h: "base_exps example_env (example_args ''e?'' ''x*'') = []"
    by code_simp
  have e: "experiments example_env (example_args ''e?'' ''x*'') = [''e1'', ''e2'']"
    by code_simp
  have r: "repr_list example_env [''e1'', ''e2''] = ''['e1', 'e2']''"
    by code_simp
  have a: "arg_base_exp (example_args ''e?'' ''x*'') = ''x*''"
    by (simp add: example_args_def)
  from generic_figure_no_base_exp [OF h, of example_cache] h e r a show ?thesis
    by (simp add: loads_def)
qed

lemma Model_cache_only:
  "Model env c k False =
     ([CacheLookup k], Inr \<lparr>handle_key = k, hmm = c k, entropy = None\<rparr>, c)"
  by (cases "c k") (simp_all add: Model_def get_or_none_def)

text \<open>
  C6. \<open>process_model\<close> builds its handle with \<^verbatim>\<open>recompute_ok=False\<close>: it looks the key up in
  the cache and never calls the fitter, whatever the cache holds, and leaves the cache as
  it was. The handle's \<^verbatim>\<open>_hmm\<close> is what the cache holds. When that is an artifact, the
  handle's entropy is what \<^verbatim>\<open>compute_entropy\<close> gives for this artifact and the raster, and
  the events are the lookup and the computation; when it is not, the handle has no entropy
  and the events are the lookup and the line \<^verbatim>\<open>No model for ... with ... states!\<close>.
\<close>

theorem process_model_cache_only:
  "\<exists>evs m. process_model env c src exp r n = (evs, Inr (Some m), c)
     \<and> fitter_calls evs = []
     \<and> handle_key m = sweep_key src exp n
     \<and> hmm m = c (sweep_key src exp n)
     \<and> entropy m = map_option (\<lambda>h. compute_entropy env h r) (c (sweep_key src exp n))
     \<and> (entropy m \<noteq> None) = (c (sweep_key src exp n) \<noteq> None)
     \<and> (ComputeEntropy (sweep_key src exp n) \<in> set evs) = (c (sweep_key src exp n) \<noteq> None)
     \<and> (evs = [CacheLookup (sweep_key src exp n), ComputeEntropy (sweep_key src exp n)])
         = (c (sweep_key src exp n) \<noteq> None)
     \<and> (evs = [CacheLookup (sweep_key src exp n),
                Stdout (''No model for '' @ exp @ '' with '' @ str_int n @ '' states!'')])
         = (c (sweep_key src exp n) = None)"
  by (cases "c (sweep_key src exp n)")
     (simp_all add: process_model_def Model_cache_only fitter_calls_def)

theorem process_model_cache_only_witness:
  "process_model example_env example_cache ''src'' ''e1'' \<lparr>N = 3, burst_default_rms = 4\<rparr> 10 =
     ([CacheLookup (sweep_key ''src'' ''e1'' 10), Stdout ''No model for e1 with 10 states!''],
      Inr (Some \<lparr>handle_key = sweep_key ''src'' ''e1'' 10, hmm = None, entropy = None\<rparr>),
      example_cache)
   \<and> process_model example_env example_cache ''src'' ''e1'' \<lparr>N = 3, burst_default_rms = 4\<rparr> 11 =
     ([CacheLookup (sweep_key ''src'' ''e1'' 11), ComputeEntropy (sweep_key ''src'' ''e1'' 11)],
      Inr (Some \<lparr>handle_key = sweep_key ''src'' ''e1'' 11, hmm = Some 11, entropy = Some 14\<rparr>),
      example_cache)"
proof -
  let ?r = "\<lparr>N = 3, burst_default_rms = 4\<rparr>"
  have absent: "example_cache (sweep_key ''src'' ''e1'' 10) = None"
    by (simp add: example_cache_def sweep_key_def)
  have present: "example_cache (sweep_key ''src'' ''e1'' 11) = Some 11"
    by (simp add: example_cache_def sweep_key_def)
  have ent: "compute_entropy example_env 11 ?r = 14"
    by (simp add: example_env_def)
  have ten: "str_int 10 = ''10''"
    by code_simp
  from process_model_cache_only [of example_env example_cache "''src''" "''e1''" ?r 10]
  obtain evs m where
    run: "process_model example_env example_cache ''src'' ''e1'' ?r 10
            = (evs, Inr (Some m), example_cache)"
    and k: "handle_key m = sweep_key ''src'' ''e1'' 10"
    and h: "hmm m = example_cache (sweep_key ''src'' ''e1'' 10)"
    and e: "entropy m = map_option (\<lambda>h. compute_entropy example_env h ?r)
                          (example_cache (sweep_key ''src'' ''e1'' 10))"
    and out: "(evs = [CacheLookup (sweep_key ''src'' ''e1'' 10),
                      Stdout (''No model for '' @ ''e1'' @ '' with '' @ str_int 10 @ '' states!'')])
               = (example_cache (sweep_key ''src'' ''e1'' 10) = None)"
    by (elim exE conjE)
  from k h e absent have "m = \<lparr>handle_key = sweep_key ''src'' ''e1'' 10, hmm = None, entropy = None\<rparr>"
    by simp
  with run out absent ten have one:
    "process_model example_env example_cache ''src'' ''e1'' ?r 10 =
       ([CacheLookup (sweep_key ''src'' ''e1'' 10), Stdout ''No model for e1 with 10 states!''],
        Inr (Some \<lparr>handle_key = sweep_key ''src'' ''e1'' 10, hmm = None, entropy = None\<rparr>),
        example_cache)"
    by simp
  from process_model_cache_only [of example_env example_cache "''src''" "''e1''" ?r 11]
  obtain evs' m' where
    run': "process_model example_env example_cache ''src'' ''e1'' ?r 11
            = (evs', Inr (Some m'), example_cache)"
    and k': "handle_key m' = sweep_key ''src'' ''e1'' 11"
    and h': "hmm m' = example_cache (sweep_key ''src'' ''e1'' 11)"
    and e': "entropy m' = map_option (\<lambda>h. compute_entropy example_env h ?r)
                          (example_cache (sweep_key ''src'' ''e1'' 11))"
    and out': "(evs' = [CacheLookup (sweep_key ''src'' ''e1'' 11),
                        ComputeEntropy (sweep_key ''src'' ''e1'' 11)])
               = (example_cache (sweep_key ''src'' ''e1'' 11) \<noteq> None)"
    by (elim exE conjE)
  from k' h' e' present ent
  have "m' = \<lparr>handle_key = sweep_key ''src'' ''e1'' 11, hmm = Some 11, entropy = Some 14\<rparr>"
    by simp
  with run' out' present have two:
    "process_model example_env example_cache ''src'' ''e1'' ?r 11 =
       ([CacheLookup (sweep_key ''src'' ''e1'' 11), ComputeEntropy (sweep_key ''src'' ''e1'' 11)],
        Inr (Some \<lparr>handle_key = sweep_key ''src'' ''e1'' 11, hmm = Some 11, entropy = Some 14\<rparr>),
        example_cache)"
    by simp
  from one two show ?thesis ..
qed

text \<open>
  C4. A model without a cached artifact is reported, but it is not left out of the models
  the entropy is aggregated from: \<open>process_model\<close> returns the handle, not \<^verbatim>\<open>None\<close>, so the
  filter of \<open>good_models\<close> keeps it. In the run below the cache has no model with ten states
  for \<open>e1\<close>; its handle, without artifact and without entropy, is the first of the eleven
  that \<open>good_models\<close> returns.
\<close>

theorem good_models_keeps_missing:
  "map_sum id (map (\<lambda>m. (key_n_states (handle_key m), hmm m, entropy m)))
     (entropy_models example_env example_cache (example_args ''e1'' ''e*'') ''e1'')
   = Inr [(10, None, None), (11, Some 11, Some 14), (12, Some 12, Some 15),
          (13, Some 13, Some 16), (14, Some 14, Some 17), (15, Some 15, Some 18),
          (16, Some 16, Some 19), (17, Some 17, Some 20), (18, Some 18, Some 21),
          (19, Some 19, Some 22), (20, Some 20, Some 23)]"
  by code_simp

lemma process_model_Some:
  "process_model env c src exp r n = (evs, Inr m, c') \<Longrightarrow> m \<noteq> None"
  by (auto simp: process_model_def split: prod.splits sum.splits option.splits)

lemma process_models_all_Some:
  "process_models env c src exp r ns = (evs, Inr ms, c') \<Longrightarrow>
     length ms = length ns \<and> None \<notin> set ms"
proof (induction ns arbitrary: c evs ms)
  case Nil
  then show ?case by simp
next
  case (Cons n ns)
  then show ?case
    by (auto split: prod.splits sum.splits dest: process_model_Some)
qed

lemma good_models_all:
  "None \<notin> set ms \<Longrightarrow> good_models (rasters(exp \<mapsto> (r, ms))) exp = Inr (map the ms)"
proof -
  have "None \<notin> set ms \<Longrightarrow>
          concat (map (\<lambda>m. case m of None \<Rightarrow> [] | Some x \<Rightarrow> [x]) ms) = map the ms"
  proof (induction ms)
    case Nil
    then show ?case by simp
  next
    case (Cons a ms)
    then show ?case by (cases a) auto
  qed
  then show "None \<notin> set ms \<Longrightarrow> good_models (rasters(exp \<mapsto> (r, ms))) exp = Inr (map the ms)"
    by (simp add: good_models_def)
qed

text \<open>
  The same for every run: whatever the cache holds, \<open>good_models\<close> returns one handle for
  each number of states that was asked for.
\<close>

lemma good_models_after_loading:
  assumes "process_models env c src exp r ns = (evs, Inr ms, c')"
  shows "good_models (rasters(exp \<mapsto> (r, ms))) exp = Inr (map the ms)
         \<and> length (map the ms) = length ns"
  using process_models_all_Some [OF assms] good_models_all [of ms rasters exp r] by simp

section \<open>Properties of \<open>load_unit_order\<close>\<close>

lemma put_valid:
  "length idx = length vs \<Longrightarrow> (\<forall>i \<in> set idx. 0 \<le> i \<and> i < int (length a)) \<Longrightarrow>
     \<exists>b. put a (zip idx vs) = Inr b \<and> length b = length a
       \<and> (\<forall>j < length a. int j \<notin> set idx \<longrightarrow> b ! j = a ! j)
       \<and> (distinct idx \<longrightarrow> (\<forall>k < length idx. b ! nat (idx ! k) = vs ! k))"
proof (induction idx vs arbitrary: a rule: list_induct2)
  case Nil
  then show ?case by simp
next
  case (Cons i idx v vs)
  let ?a = "a[nat i := v]"
  from Cons.prems have i: "0 \<le> i" "i < int (length a)" by auto
  from Cons.prems have "\<forall>i \<in> set idx. 0 \<le> i \<and> i < int (length ?a)" by simp
  from Cons.IH [OF this] obtain b where b: "put ?a (zip idx vs) = Inr b" "length b = length a"
    and keep: "\<forall>j < length a. int j \<notin> set idx \<longrightarrow> b ! j = ?a ! j"
    and hit: "distinct idx \<longrightarrow> (\<forall>k < length idx. b ! nat (idx ! k) = vs ! k)"
    by auto
  have run: "put a (zip (i # idx) (v # vs)) = Inr b"
    using i b by simp
  have keep': "\<forall>j < length a. int j \<notin> set (i # idx) \<longrightarrow> b ! j = a ! j"
  proof (intro allI impI)
    fix j assume j: "j < length a" "int j \<notin> set (i # idx)"
    with i have "nat i \<noteq> j" by auto
    with keep j show "b ! j = a ! j" by simp
  qed
  have hit': "\<forall>k < length (i # idx). b ! nat ((i # idx) ! k) = (v # vs) ! k" if d: "distinct (i # idx)"
  proof (intro allI impI)
    fix k assume k: "k < length (i # idx)"
    show "b ! nat ((i # idx) ! k) = (v # vs) ! k"
    proof (cases k)
      case 0
      from d i have "int (nat i) \<notin> set idx" by simp
      with keep i have "b ! nat i = ?a ! nat i" by simp
      with i 0 show ?thesis by simp
    next
      case (Suc k')
      with k d hit show ?thesis by simp
    qed
  qed
  from run b keep' hit' show ?case by blast
qed


lemma length_arange: "length (arange n) = n"
  by (simp add: arange_def)

lemma set_arange: "set (arange n) = {i. 0 \<le> i \<and> i < int n}"
proof -
  have "i \<in> int ` {0..<n} \<longleftrightarrow> 0 \<le> i \<and> i < int n" for i
  proof
    assume "i \<in> int ` {0..<n}"
    then show "0 \<le> i \<and> i < int n" by auto
  next
    assume "0 \<le> i \<and> i < int n"
    then have "i = int (nat i)" "nat i \<in> {0..<n}" by auto
    then show "i \<in> int ` {0..<n}" by blast
  qed
  then show ?thesis by (auto simp: arange_def)
qed

lemma perm_length:
  assumes "distinct xs" and "set xs = set (arange n)"
  shows "length xs = n"
proof -
  have "distinct (arange n)"
    by (simp add: arange_def distinct_map inj_on_def)
  then have "card (set (arange n)) = n"
    using distinct_card [of "arange n"] by (simp add: length_arange)
  with assms distinct_card [of xs] show ?thesis by simp
qed

lemma invert_perm:
  assumes run: "invert rasters exp cast unit_order = Inr (uo, ivo)"
    and r: "rasters exp = Some (r, ms)"
    and d: "distinct unit_order"
    and s: "set unit_order = set (arange (N r))"
    and c: "\<forall>i < N r. cast (int i) = int i"
  shows "uo = unit_order \<and> length ivo = N r \<and> (\<forall>i < N r. ivo ! nat (unit_order ! i) = int i)"
proof -
  have len: "length unit_order = N r"
    using perm_length [OF d s] .
  have vals: "map cast (arange (N r)) = arange (N r)"
    using c by (simp add: arange_def)
  have rng: "\<forall>i \<in> set unit_order. 0 \<le> i \<and> i < int (length (replicate (length unit_order) (0::int)))"
    using s len by (simp add: set_arange)
  from put_valid [of unit_order "arange (N r)" "replicate (length unit_order) 0", OF _ rng]
  obtain b where b: "put (replicate (length unit_order) 0) (zip unit_order (arange (N r))) = Inr b"
    "length b = N r" "\<forall>k < length unit_order. b ! nat (unit_order ! k) = arange (N r) ! k"
    using len d by (auto simp: length_arange)
  from b(1) len have "setitem (replicate (length unit_order) 0) unit_order (arange (N r)) = Inr b"
    by (simp add: setitem_def length_arange)
  with run r vals have "uo = unit_order" "ivo = b"
    by (simp_all add: invert_def)
  with b len show ?thesis
    by (simp add: arange_def)
qed

lemma int32_range: "- (2 ^ 31) \<le> int32 x \<and> int32 x < 2 ^ 31"
  unfolding int32_def
  using signed_take_bit_int_greater_eq_minus_exp [of 31 x] signed_take_bit_int_less_exp [of 31 x]
  by simp

lemma int32_id: "- (2 ^ 31) \<le> x \<Longrightarrow> x < 2 ^ 31 \<Longrightarrow> int32 x = x"
  unfolding int32_def by (rule signed_take_bit_int_eq_self)

text \<open>
  C8. Whenever \<open>load_unit_order\<close> returns a unit order that is a permutation of
  \<open>0, ..., N - 1\<close>, be it from the metrics or the fallback, the second array it returns is
  the inverse permutation: \<open>inverse_unit_order[unit_order[i]] = i\<close> for every \<open>i < N\<close>.
\<close>

theorem load_unit_order_inverse:
  assumes run: "load_unit_order env rasters exp = (out, Inr (unit_order, inverse_unit_order))"
    and r: "rasters exp = Some (r, ms)"
    and d: "distinct unit_order"
    and s: "set unit_order = set (arange (N r))"
  shows "length unit_order = N r \<and> length inverse_unit_order = N r
         \<and> (\<forall>i < N r. inverse_unit_order ! nat (unit_order ! i) = int i)"
proof -
  have len: "length unit_order = N r"
    using perm_length [OF d s] .
  consider (metrics) arr where
      "invert rasters exp int32 (map (\<lambda>x. int32 (x - 1)) (concat arr))
         = Inr (unit_order, inverse_unit_order)"
    | (fallback) "invert rasters exp id (arange (N r)) = Inr (unit_order, inverse_unit_order)"
    using run r
    by (auto simp: load_unit_order_def split: option.splits list.splits)
  then show ?thesis
  proof cases
    case (metrics arr)
    let ?uo = "map (\<lambda>x. int32 (x - 1)) (concat arr)"
    from metrics r have uo: "unit_order = ?uo"
      by (auto simp: invert_def split: sum.splits)
    have small: "\<forall>i < N r. int32 (int i) = int i"
    proof (intro allI impI)
      fix i assume i: "i < N r"
      then have "int (N r - 1) \<in> set unit_order"
        using s by (auto simp: set_arange)
      then obtain x where "int (N r - 1) = int32 x"
        using uo by auto
      with int32_range [of x] have "int (N r - 1) < 2 ^ 31" by simp
      with i have "int i < 2 ^ 31" by simp
      then show "int32 (int i) = int i"
        by (intro int32_id) simp_all
    qed
    from invert_perm [OF metrics [folded uo] r d s small] len show ?thesis by simp
  next
    case fallback
    from fallback r have uo: "unit_order = arange (N r)"
      by (auto simp: invert_def split: sum.splits)
    from invert_perm [OF fallback [folded uo] r d s] len show ?thesis by simp
  qed
qed


lemma invert_identity:
  assumes r: "rasters exp = Some (r, ms)"
  shows "invert rasters exp id (arange (N r)) = Inr (arange (N r), arange (N r))"
proof -
  let ?n = "N r"
  have rng: "\<forall>i \<in> set (arange ?n). 0 \<le> i \<and> i < int (length (replicate (length (arange ?n)) (0::int)))"
    by (simp add: set_arange length_arange)
  have dist: "distinct (arange ?n)"
    by (simp add: arange_def distinct_map inj_on_def)
  from put_valid [of "arange ?n" "arange ?n" "replicate (length (arange ?n)) 0", OF _ rng]
  obtain b where b: "put (replicate (length (arange ?n)) 0) (zip (arange ?n) (arange ?n)) = Inr b"
    "length b = ?n" "\<forall>k < ?n. b ! nat (arange ?n ! k) = arange ?n ! k"
    using dist by (auto simp: length_arange)
  have "b = arange ?n"
  proof (rule nth_equalityI)
    show "length b = length (arange ?n)"
      using b(2) by (simp add: length_arange)
  next
    fix k assume "k < length b"
    with b(2) have k: "k < ?n" by simp
    with b(3) have "b ! nat (arange ?n ! k) = arange ?n ! k" by blast
    with k show "b ! k = arange ?n ! k" by (simp add: arange_def)
  qed
  with b(1) have "setitem (replicate (length (arange ?n)) 0) (arange ?n) (map id (arange ?n))
                    = Inr (arange ?n)"
    by (simp add: setitem_def)
  with r show ?thesis
    by (simp add: invert_def)
qed

lemma invert_one_based:
  assumes r: "rasters exp = Some (r, ms)"
    and len: "length xs = N r"
    and rng: "\<forall>x \<in> set xs. 1 \<le> x \<and> x \<le> int (N r)"
    and small: "N r \<le> 2 ^ 31"
  shows "\<exists>ivo. invert rasters exp int32 (map (\<lambda>x. int32 (x - 1)) xs)
               = Inr (map (\<lambda>x. x - 1) xs, ivo)"
proof -
  have same: "map (\<lambda>x. int32 (x - 1)) xs = map (\<lambda>x. x - 1) xs"
  proof (rule map_cong [OF refl])
    fix x assume "x \<in> set xs"
    with rng have x: "1 \<le> x" "x \<le> int (N r)" by auto
    from small have "int (N r) \<le> 2 ^ 31" by (simp add: of_nat_le_iff [symmetric, of "N r"] del: of_nat_le_iff)
    with x show "int32 (x - 1) = x - 1"
      by (intro int32_id) simp_all
  qed
  let ?uo = "map (\<lambda>x. x - 1) xs"
  let ?vals = "map int32 (arange (N r))"
  have idx: "\<forall>i \<in> set ?uo. 0 \<le> i \<and> i < int (length (replicate (length ?uo) (0::int)))"
    using rng len by auto
  have "length ?uo = length ?vals"
    using len by (simp add: length_arange)
  from put_valid [OF this idx]
  obtain b where "put (replicate (length ?uo) 0) (zip ?uo ?vals) = Inr b"
    by blast
  with len have "setitem (replicate (length ?uo) 0) ?uo ?vals = Inr b"
    by (simp add: setitem_def length_arange)
  with r show ?thesis
    unfolding same by (simp add: invert_def)
qed

text \<open>
  C7. For an experiment with a raster of \<open>N\<close> units: when the metrics hold a mean-rate
  ordering of these units (\<open>N\<close> entries, each a unit number from 1 to \<open>N\<close>, with \<open>N\<close> within
  32 bits), \<open>load_unit_order\<close> prints nothing and returns the ordering with every entry less
  one; when there are no metrics (\<^verbatim>\<open>None\<close> or an empty dictionary), it prints the warning,
  raises nothing and returns the identity ordering \<open>0, ..., N - 1\<close>, with itself as inverse.
\<close>

theorem load_unit_order_result:
  assumes r: "rasters exp = Some (r, ms)"
  shows "(\<forall>d arr. load_metrics env exp [''mean_rate_ordering''] = Some d \<and> d \<noteq> []
            \<and> map_of d ''mean_rate_ordering'' = Some arr
            \<and> length (concat arr) = N r \<and> (\<forall>x \<in> set (concat arr). 1 \<le> x \<and> x \<le> int (N r))
            \<and> N r \<le> 2 ^ 31 \<longrightarrow>
            (\<exists>ivo. load_unit_order env rasters exp
                     = ([], Inr (map (\<lambda>x. x - 1) (concat arr), ivo))))
         \<and> (load_metrics env exp [''mean_rate_ordering''] = None
             \<or> load_metrics env exp [''mean_rate_ordering''] = Some [] \<longrightarrow>
            load_unit_order env rasters exp
              = ([Stdout metrics_warning], Inr (arange (N r), arange (N r))))"
proof (intro conjI allI impI)
  fix d arr
  assume h: "load_metrics env exp [''mean_rate_ordering''] = Some d \<and> d \<noteq> []
            \<and> map_of d ''mean_rate_ordering'' = Some arr
            \<and> length (concat arr) = N r \<and> (\<forall>x \<in> set (concat arr). 1 \<le> x \<and> x \<le> int (N r))
            \<and> N r \<le> 2 ^ 31"
  then obtain kv kvs where d: "d = kv # kvs"
    by (cases d) auto
  from h r invert_one_based [of rasters exp r ms "concat arr"]
  obtain ivo where "invert rasters exp int32 (map (\<lambda>x. int32 (x - 1)) (concat arr))
                      = Inr (map (\<lambda>x. x - 1) (concat arr), ivo)"
    by blast
  with h d have "load_unit_order env rasters exp = ([], Inr (map (\<lambda>x. x - 1) (concat arr), ivo))"
    by (simp add: load_unit_order_def)
  then show "\<exists>ivo. load_unit_order env rasters exp
                     = ([], Inr (map (\<lambda>x. x - 1) (concat arr), ivo))"
    by blast
next
  assume "load_metrics env exp [''mean_rate_ordering''] = None
             \<or> load_metrics env exp [''mean_rate_ordering''] = Some []"
  with r invert_identity [of rasters exp r ms]
  show "load_unit_order env rasters exp
              = ([Stdout metrics_warning], Inr (arange (N r), arange (N r)))"
    by (auto simp: load_unit_order_def)
qed


lemma example_rasters_e1: "example_rasters ''e1'' = Some (\<lparr>N = 3, burst_default_rms = 4\<rparr>, [])"
  by (simp add: example_rasters_def)

lemma example_rasters_e2: "example_rasters ''e2'' = Some (\<lparr>N = 2, burst_default_rms = 4\<rparr>, [])"
  by (simp add: example_rasters_def)

theorem load_unit_order_result_witness:
  "(\<exists>ivo. load_unit_order example_env example_rasters ''e1'' = ([], Inr ([1, 2, 0], ivo)))
   \<and> load_unit_order example_env example_rasters ''e2''
       = ([Stdout metrics_warning], Inr ([0, 1], [0, 1]))"
proof -
  have m1: "load_metrics example_env ''e1'' [''mean_rate_ordering'']
              = Some [(''mean_rate_ordering'', [[2, 3, 1]])]"
    by (simp add: example_env_def)
  have m2: "load_metrics example_env ''e2'' [''mean_rate_ordering''] = None"
    by (simp add: example_env_def)
  have a2: "arange 2 = [0, 1]"
    by code_simp
  from load_unit_order_result
    [of example_rasters "''e1''" "\<lparr>N = 3, burst_default_rms = 4\<rparr>" "[]" example_env,
      OF example_rasters_e1, THEN conjunct1,
      rule_format, of "[(''mean_rate_ordering'', [[2, 3, 1]])]" "[[2, 3, 1]]"] m1
  have one: "\<exists>ivo. load_unit_order example_env example_rasters ''e1'' = ([], Inr ([1, 2, 0], ivo))"
    by simp
  from load_unit_order_result
    [of example_rasters "''e2''" "\<lparr>N = 2, burst_default_rms = 4\<rparr>" "[]" example_env,
      OF example_rasters_e2, THEN conjunct2] m2 a2
  have two: "load_unit_order example_env example_rasters ''e2''
               = ([Stdout metrics_warning], Inr ([0, 1], [0, 1]))"
    by simp
  from one two show ?thesis ..
qed

theorem load_unit_order_inverse_witness:
  "load_unit_order example_env example_rasters ''e1'' = ([], Inr ([1, 2, 0], [2, 0, 1]))
   \<and> distinct [1, 2, 0 :: int] \<and> set [1, 2, 0] = set (arange 3)
   \<and> [2, 0, 1] ! nat ([1, 2, 0] ! 0) = (0 :: int)
   \<and> [2, 0, 1] ! nat ([1, 2, 0] ! 1) = (1 :: int)
   \<and> [2, 0, 1] ! nat ([1, 2, 0] ! 2) = (2 :: int)"
proof -
  have run: "load_unit_order example_env example_rasters ''e1'' = ([], Inr ([1, 2, 0], [2, 0, 1]))"
    by code_simp
  have d: "distinct [1, 2, 0 :: int]"
    by simp
  have a3: "arange 3 = [0, 1, 2]"
    by code_simp
  have s: "set [1, 2, 0] = set (arange (N \<lparr>N = 3, burst_default_rms = 4\<rparr>))"
    by (auto simp: a3)
  from load_unit_order_inverse [OF run example_rasters_e1 d s]
  have "\<forall>i < 3. [2, 0, 1] ! nat ([1, 2, 0] ! i) = int i"
    by simp
  then have "[2, 0, 1] ! nat ([1, 2, 0] ! 0) = int 0 \<and> [2, 0, 1] ! nat ([1, 2, 0] ! 1) = int 1
    \<and> [2, 0, 1] ! nat ([1, 2, 0] ! 2) = int 2"
    by (intro conjI; elim allE [of _ 0] allE [of _ 1] allE [of _ 2]) simp_all
  with run d s show ?thesis
    by simp
qed

end
